(* ===== verification/Prelude.thy ===== *)
theory Prelude
  imports Complex_Main "HOL-Library.Sublist" "HOL-Library.Multiset"
begin

text \<open>
  Shared vocabulary of the development: the collections of rewrite rules that the
  component theories fill, the names of the model's basic types, and generic facts on
  lists (filters over a key, partitions of a list by a key, order preservation) that the
  menu components use.
\<close>

named_theorems js_eval "rules that evaluate the JavaScript runtime model on concrete values"
named_theorems menu_simps "rewrite rules of the menu operations of the screens"

text \<open>
  A TypeScript string is a sequence of UTF-16 code units; the model keeps the code units
  below 256 (Latin-1), one HOL \<open>char\<close> each. All literals of the source are ASCII.
\<close>

type_synonym js_string = string

text \<open>JavaScript truthiness of a string: only the empty string is falsy.\<close>

definition js_truthy_str :: "js_string \<Rightarrow> bool" where
  "js_truthy_str s \<longleftrightarrow> s \<noteq> []"

lemma js_truthy_str_simps [simp, js_eval]:
  "js_truthy_str [] = False" "js_truthy_str (c # cs) = True"
  by (simp_all add: js_truthy_str_def)

subsection \<open>Filtering a list by a key\<close>

text \<open>
  The screens select the items of a list whose key equals, or differs from, a given
  value. The facts below are the ones the component proofs share.
\<close>

lemma filter_key_neq_idem [simp]:
  "filter (\<lambda>x. k x \<noteq> v) (filter (\<lambda>x. k x \<noteq> v) xs) = filter (\<lambda>x. k x \<noteq> v) xs"
  by (simp add: filter_filter)

lemma filter_key_absent:
  "v \<notin> k ` set xs \<Longrightarrow> filter (\<lambda>x. k x \<noteq> v) xs = xs"
  by (induction xs) auto

lemma key_not_in_filter_neq [simp]:
  "v \<notin> k ` set (filter (\<lambda>x. k x \<noteq> v) xs)"
  by auto

text \<open>
  Filtering by every value of a list of distinct keys that covers the keys of the list
  splits the list: the lengths of the parts add up to the length of the list.
\<close>

lemma sum_length_filter_keys:
  assumes "distinct ks" and "k ` set xs \<subseteq> set ks"
  shows "(\<Sum>v\<leftarrow>ks. length (filter (\<lambda>x. k x = v) xs)) = length xs"
  using assms(2)
proof (induction xs)
  case Nil
  then show ?case by simp
next
  case (Cons x xs)
  have pt: "\<And>v. length (filter (\<lambda>y. k y = v) (x # xs))
      = (if k x = v then 1 else 0) + length (filter (\<lambda>y. k y = v) xs)"
    by simp
  have split: "(\<Sum>v\<leftarrow>ks. length (filter (\<lambda>y. k y = v) (x # xs)))
      = (\<Sum>v\<leftarrow>ks. (if k x = v then 1 else 0)) + (\<Sum>v\<leftarrow>ks. length (filter (\<lambda>y. k y = v) xs))"
    by (simp only: pt sum_list_addf)
  have "(\<Sum>v\<leftarrow>ks. (if k x = v then 1 else 0::nat)) = 1"
    using Cons.prems assms(1) by (simp add: sum_list_distinct_conv_sum_set)
  with split Cons show ?case by simp
qed

text \<open>An element of the list lies in exactly one of the parts.\<close>

lemma filter_keys_unique_part:
  assumes "distinct ks" and "k x \<in> set ks"
  shows "length (filter (\<lambda>v. x \<in> set (filter (\<lambda>y. k y = v) xs)) ks)
           = (if x \<in> set xs then 1 else 0)"
proof -
  have "filter (\<lambda>v. x \<in> set (filter (\<lambda>y. k y = v) xs)) ks
          = filter (\<lambda>v. x \<in> set xs \<and> v = k x) ks"
    by (rule filter_cong) auto
  also have "length \<dots> = (if x \<in> set xs then 1 else 0)"
  proof (cases "x \<in> set xs")
    case True
    have "{v. x \<in> set xs \<and> v = k x} \<inter> set ks = {k x}"
      using True assms(2) by auto
    then show ?thesis
      using True assms(1) by (simp add: distinct_length_filter)
  next
    case False
    then show ?thesis by simp
  qed
  finally show ?thesis .
qed

text \<open>With distinct keys, a key that occurs selects exactly one element.\<close>

lemma length_filter_key_unique:
  assumes "distinct (map k xs)" and "v \<in> k ` set xs"
  shows "length (filter (\<lambda>x. k x = v) xs) = 1"
  using assms
proof (induction xs)
  case Nil
  then show ?case by simp
next
  case (Cons x xs)
  show ?case
  proof (cases "k x = v")
    case True
    from Cons.prems(1) have "k x \<notin> k ` set xs" by simp
    with True have "\<forall>y\<in>set xs. k y \<noteq> v"
      by (auto simp: image_iff)
    then have "filter (\<lambda>y. k y = v) xs = []"
      by (simp add: filter_empty_conv)
    with True show ?thesis by simp
  next
    case False
    with Cons show ?thesis by simp
  qed
qed

text \<open>Filtering keeps the relative order of the elements it keeps.\<close>

lemma filter_keeps_order:
  assumes "P a" and "P b"
  shows "\<exists>us vs ws. filter P (as @ a # bs @ b # cs) = us @ a # vs @ b # ws"
  using assms by auto


text \<open>The same partition counted as a multiset: every element lands in exactly one part.\<close>

lemma mset_concat_map: "mset (concat (map f ks)) = (\<Sum>v\<leftarrow>ks. mset (f v))"
  by (induction ks) simp_all

lemma mset_concat_filter_keys:
  assumes "distinct ks" and "k ` set xs \<subseteq> set ks"
  shows "mset (concat (map (\<lambda>v. filter (\<lambda>x. k x = v) xs) ks)) = mset xs"
  using assms(2)
proof (induction xs)
  case Nil
  then show ?case by (simp add: mset_concat_map)
next
  case (Cons x xs)
  have pt: "\<And>v. mset (filter (\<lambda>y. k y = v) (x # xs))
      = (if k x = v then {#x#} else {#}) + mset (filter (\<lambda>y. k y = v) xs)"
    by simp
  have split: "(\<Sum>v\<leftarrow>ks. mset (filter (\<lambda>y. k y = v) (x # xs)))
      = (\<Sum>v\<leftarrow>ks. (if k x = v then {#x#} else {#})) + (\<Sum>v\<leftarrow>ks. mset (filter (\<lambda>y. k y = v) xs))"
    by (simp only: pt sum_list_addf)
  have "(\<Sum>v\<leftarrow>ks. (if k x = v then {#x#} else {#})) = {#x#}"
    using Cons.prems assms(1) by (simp add: sum_list_distinct_conv_sum_set)
  with split Cons show ?case by (simp add: mset_concat_map)
qed


text \<open>Filtering two related lists by predicates that agree on related elements.\<close>

lemma list_all2_filter:
  assumes "list_all2 R xs ys" and "\<And>x y. R x y \<Longrightarrow> P x = Q y"
  shows "list_all2 R (filter P xs) (filter Q ys)"
  using assms(1) by (induction rule: list_all2_induct) (auto dest: assms(2))


lemma list_all2_map_eq:
  "list_all2 R xs ys \<Longrightarrow> (\<And>x y. R x y \<Longrightarrow> f x = g y) \<Longrightarrow> map f xs = map g ys"
  by (induction rule: list_all2_induct) auto

lemma sum_list_filter_le:
  fixes f :: "'a \<Rightarrow> 'b :: ordered_comm_monoid_add"
  shows "(\<And>x. x \<in> set xs \<Longrightarrow> 0 \<le> f x) \<Longrightarrow> sum_list (map f (filter P xs)) \<le> sum_list (map f xs)"
proof (induction xs)
  case Nil
  then show ?case by simp
next
  case (Cons x xs)
  then have "sum_list (map f (filter P xs)) \<le> sum_list (map f xs)" and "0 \<le> f x" by simp_all
  then show ?case by (auto intro: add_mono order.trans [OF _ add_increasing])
qed


lemma of_nat_sum_list_map:
  "(\<And>x. x \<in> set xs \<Longrightarrow> f x = of_nat (g x)) \<Longrightarrow> of_nat (sum_list (map g xs)) = sum_list (map f xs)"
  by (induction xs) auto


lemma sum_list_between:
  "(\<And>k. k \<in> set ks \<Longrightarrow> a \<le> k \<and> k \<le> b) \<Longrightarrow>
     length ks * a \<le> sum_list ks \<and> sum_list ks \<le> length ks * (b :: nat)"
  by (induction ks) (simp_all add: add_mono)

lemma sum_list_Min_Max:
  "ks \<noteq> [] \<Longrightarrow> length ks * Min (set ks) \<le> sum_list ks \<and> sum_list ks \<le> length ks * (Max (set ks) :: nat)"
  by (rule sum_list_between) simp

lemma floor_nat_half [simp]: "\<lfloor>(of_nat k :: 'a :: floor_ceiling) + 1 / 2\<rfloor> = int k"
  by (simp add: floor_eq_iff)

text \<open>Unfolding \<open>replicate\<close> at a literal count, for evaluating closed terms.\<close>

lemma replicate_numeral_eval [js_eval]: "replicate (numeral n) x = x # replicate (pred_numeral n) x"
  by (simp add: numeral_eq_Suc)

end
