(* ===== verification/JsNumber.thy ===== *)
theory JsNumber
  imports Prelude
begin

text \<open>
  The JavaScript number type, as the screens use it: the price of a dish
  (\<open>parseFloat(price)\<close> in \<open>ChefScreen.addItem\<close>), the running sum and the
  quotient of \<open>HomeScreen.averagePrice\<close>. A JavaScript number is an IEEE 754 binary64
  value. A finite one is held exactly as \<open>Num m e\<close>, the rational \<open>m * 2 ^ e\<close>;
  every arithmetic result is rounded to nearest, ties to even, by \<open>round_double\<close>,
  which is what the ECMAScript specification requires of \<open>+\<close>, \<open>/\<close> and of the
  conversion of a decimal literal. Signed zero is not kept: \<open>-0\<close> is \<open>Num 0 0\<close>,
  which no operation of the program can tell apart (\<open>(-0).toFixed(2)\<close> is
  \<open>"0.00"\<close> as \<open>(0).toFixed(2)\<close> is).
\<close>

datatype jsnum = Num int int | NaN | Infinity | NegInfinity

definition dval :: "int \<Rightarrow> int \<Rightarrow> rat" where
  "dval m e = of_int m * 2 powi e"

fun js_value :: "jsnum \<Rightarrow> rat option" where
  "js_value (Num m e) = Some (dval m e)"
| "js_value _ = None"

fun js_is_finite :: "jsnum \<Rightarrow> bool" where
  "js_is_finite (Num m e) = True"
| "js_is_finite _ = False"

text \<open>
  The binary64 values in canonical form: zero is \<open>Num 0 0\<close>; a normal value has a
  53-bit mantissa \<open>2 ^ 52 \<le> \<bar>m\<bar> < 2 ^ 53\<close>; a subnormal one has the least exponent.
\<close>

fun is_double :: "jsnum \<Rightarrow> bool" where
  "is_double (Num m e) \<longleftrightarrow>
     (m = 0 \<and> e = 0) \<or>
     (m \<noteq> 0 \<and> -1074 \<le> e \<and> e \<le> 971 \<and> \<bar>m\<bar> < 2 ^ 53 \<and> (2 ^ 52 \<le> \<bar>m\<bar> \<or> e = -1074))"
| "is_double _ = True"

subsection \<open>Rounding a rational to the nearest double\<close>

fun bit_length :: "nat \<Rightarrow> nat" where
  "bit_length n = (if n = 0 then 0 else Suc (bit_length (n div 2)))"

declare bit_length.simps [simp del]

text \<open>\<open>round_half_even n d\<close> is the integer nearest to \<open>n / d\<close>, the even one on a tie.\<close>

definition round_half_even :: "int \<Rightarrow> int \<Rightarrow> int" where
  "round_half_even n d =
     (let q = n div d; r = n mod d in
      if d < 2 * r then q + 1 else if 2 * r < d then q else if even q then q else q + 1)"

text \<open>
  \<open>ilog2_ratio a q\<close> is \<open>\<lfloor>log\<^sub>2 (a / q)\<rfloor>\<close> for positive \<open>a\<close>, \<open>q\<close>: the
  difference of the bit lengths, less one when \<open>a / q\<close> is below that power of two.
\<close>

definition ilog2_ratio :: "int \<Rightarrow> int \<Rightarrow> int" where
  "ilog2_ratio a q =
     (let k = int (bit_length (nat a)) - int (bit_length (nat q))
      in if (if 0 \<le> k then q * 2 ^ nat k \<le> a else q \<le> a * 2 ^ nat (- k)) then k else k - 1)"

text \<open>
  \<open>round_double p q e\<close> rounds \<open>p / q * 2 ^ e\<close> (\<open>q > 0\<close>) to a double:
  \<open>ulp_exp\<close> is the exponent of the unit in the last place, 52 below the leading bit
  and at least -1074; \<open>round_mantissa\<close> is the value in units of the last place,
  rounded half to even; a carry to \<open>2 ^ 53\<close> moves to the next binade, and a value
  that needs an exponent above 971 overflows to an infinity.
\<close>

definition ulp_exp :: "int \<Rightarrow> int \<Rightarrow> int \<Rightarrow> int" where
  "ulp_exp p q e = max (-1074) (ilog2_ratio \<bar>p\<bar> q + e - 52)"

definition round_mantissa :: "int \<Rightarrow> int \<Rightarrow> int \<Rightarrow> int" where
  "round_mantissa p q e =
     (let t = ulp_exp p q e in
      if t \<le> e then round_half_even (\<bar>p\<bar> * 2 ^ nat (e - t)) q
      else round_half_even \<bar>p\<bar> (q * 2 ^ nat (t - e)))"

definition round_double :: "int \<Rightarrow> int \<Rightarrow> int \<Rightarrow> jsnum" where
  "round_double p q e =
     (if p = 0 then Num 0 0 else
      let t = ulp_exp p q e;
          M = round_mantissa p q e;
          M' = (if M = 2 ^ 53 then 2 ^ 52 else M);
          t' = (if M = 2 ^ 53 then t + 1 else t)
      in if M' = 0 then Num 0 0
         else if 971 < t' then (if 0 < p then Infinity else NegInfinity)
         else Num (sgn p * M') t')"

definition js_of_int :: "int \<Rightarrow> jsnum" where
  "js_of_int n = round_double n 1 0"

definition js_zero :: jsnum where
  "js_zero = Num 0 0"

subsection \<open>Arithmetic\<close>

text \<open>Addition (ECMAScript Number::add): exact sum, rounded once.\<close>

fun js_add :: "jsnum \<Rightarrow> jsnum \<Rightarrow> jsnum" where
  "js_add (Num m1 e1) (Num m2 e2) =
     (let e = min e1 e2 in round_double (m1 * 2 ^ nat (e1 - e) + m2 * 2 ^ nat (e2 - e)) 1 e)"
| "js_add NaN y = NaN"
| "js_add x NaN = NaN"
| "js_add Infinity NegInfinity = NaN"
| "js_add NegInfinity Infinity = NaN"
| "js_add Infinity y = Infinity"
| "js_add x Infinity = Infinity"
| "js_add NegInfinity y = NegInfinity"
| "js_add x NegInfinity = NegInfinity"

text \<open>
  Division (ECMAScript Number::divide). The divisor zero is \<open>+0\<close>, the only zero the
  model has.
\<close>

fun js_div :: "jsnum \<Rightarrow> jsnum \<Rightarrow> jsnum" where
  "js_div (Num m1 e1) (Num m2 e2) =
     (if m2 = 0 then (if m1 = 0 then NaN else if 0 < m1 then Infinity else NegInfinity)
      else round_double (m1 * sgn m2) \<bar>m2\<bar> (e1 - e2))"
| "js_div NaN y = NaN"
| "js_div x NaN = NaN"
| "js_div (Num m e) Infinity = Num 0 0"
| "js_div (Num m e) NegInfinity = Num 0 0"
| "js_div Infinity (Num m e) = (if m < 0 then NegInfinity else Infinity)"
| "js_div NegInfinity (Num m e) = (if m < 0 then Infinity else NegInfinity)"
| "js_div x y = NaN"

subsection \<open>NaN propagates\<close>

lemma js_add_NaN [simp]: "js_add NaN y = NaN" "js_add x NaN = NaN"
  by simp (cases x; simp)

lemma js_div_NaN [simp]: "js_div NaN y = NaN"
  by simp

subsection \<open>Facts on bit length and rounding\<close>

lemma bit_length_bounds:
  "0 < n \<Longrightarrow> 2 ^ (bit_length n - 1) \<le> n \<and> n < 2 ^ bit_length n"
proof (induction n rule: bit_length.induct)
  case (1 n)
  show ?case
  proof (cases "n div 2 = 0")
    case True
    with "1.prems" have "n = 1" by auto
    then show ?thesis by (simp add: bit_length.simps)
  next
    case False
    with "1.IH" "1.prems" have ih: "2 ^ (bit_length (n div 2) - 1) \<le> n div 2"
        "n div 2 < 2 ^ bit_length (n div 2)"
      by auto
    from False have pos: "0 < bit_length (n div 2)"
      by (subst bit_length.simps) simp
    from ih(1) pos have "2 ^ (bit_length (n div 2)) \<le> n"
      by (cases "bit_length (n div 2)") auto
    moreover from ih(2) have "n < 2 ^ Suc (bit_length (n div 2))"
      by simp
    ultimately show ?thesis
      using "1.prems" by (subst (1 2) bit_length.simps) simp
  qed
qed

lemma round_half_even_bound:
  assumes "0 < d"
  shows "\<bar>2 * (round_half_even n d * d - n)\<bar> \<le> d"
proof -
  define q r where "q = n div d" and "r = n mod d"
  have n: "n = q * d + r" by (simp add: q_def r_def)
  have r: "0 \<le> r" "r < d" using assms by (simp_all add: r_def)
  show ?thesis
    unfolding round_half_even_def Let_def q_def [symmetric] r_def [symmetric]
    using r by (auto simp: n abs_le_iff algebra_simps)
qed

lemma round_half_even_exact:
  "0 < d \<Longrightarrow> d dvd n \<Longrightarrow> round_half_even n d = n div d"
  by (simp add: round_half_even_def)

lemma round_half_even_nonneg:
  "0 < d \<Longrightarrow> 0 \<le> n \<Longrightarrow> 0 \<le> round_half_even n d"
  by (simp add: round_half_even_def Let_def pos_imp_zdiv_nonneg_iff)

subsection \<open>Rounding: canonical result, error bound, exactness\<close>

lemma pow2_bit_length:
  assumes "0 < a"
  shows "(2::rat) powi (int (bit_length (nat a)) - 1) \<le> of_int a
    \<and> of_int a < (2::rat) powi int (bit_length (nat a))"
proof -
  let ?b = "bit_length (nat a)"
  from bit_length_bounds [of "nat a"] assms
  have nb: "2 ^ (?b - 1) \<le> nat a" "nat a < 2 ^ ?b" by auto
  obtain c where c: "?b = Suc c"
    using nb(2) assms by (cases ?b) auto
  have i1: "(2::int) ^ c \<le> a" "a < 2 * 2 ^ c"
    using nb assms c by (simp_all add: le_nat_iff nat_less_iff)
  have "(of_int ((2::int) ^ c) :: rat) \<le> of_int a" "of_int a < (of_int (2 * (2::int) ^ c) :: rat)"
    using i1 by (simp_all only: of_int_le_iff of_int_less_iff)
  then have r1: "(2::rat) ^ c \<le> of_int a" "of_int a < (2::rat) * 2 ^ c"
    by simp_all
  have "int ?b - 1 = int c" "int ?b = int (Suc c)" using c by simp_all
  with r1 show ?thesis by (simp only: power_int_of_nat power_Suc)
qed

lemma pow2_le_ratio_nonneg:
  assumes k: "0 \<le> k" and qr: "(0::rat) < of_int q"
  shows "(2::rat) powi k \<le> of_int a / of_int q \<longleftrightarrow> q * 2 ^ nat k \<le> a"
proof -
  from k have H1: "(2::rat) powi k = of_int (2 ^ nat k)"
    by (metis nat_0_le of_int_numeral of_int_power power_int_of_nat)
  have "(2::rat) powi k \<le> of_int a / of_int q \<longleftrightarrow> (2::rat) powi k * of_int q \<le> of_int a"
    using qr by (rule pos_le_divide_eq)
  also have "\<dots> \<longleftrightarrow> of_int (q * 2 ^ nat k) \<le> (of_int a :: rat)"
    by (simp only: H1 of_int_mult ac_simps)
  also have "\<dots> \<longleftrightarrow> q * 2 ^ nat k \<le> a"
    by (rule of_int_le_iff)
  finally show ?thesis .
qed

lemma pow2_le_ratio_neg:
  assumes k: "\<not> 0 \<le> k" and qr: "(0::rat) < of_int q"
  shows "(2::rat) powi k \<le> of_int a / of_int q \<longleftrightarrow> q \<le> a * 2 ^ nat (- k)"
proof -
  define n where "n = nat (- k)"
  have kn: "k = - int n" using k by (simp add: n_def)
  have H2: "(2::rat) powi k = inverse (2 ^ n)"
    by (simp only: kn power_int_minus power_int_of_nat)
  have pos: "(0::rat) < 2 ^ n" by simp
  have "(2::rat) powi k \<le> of_int a / of_int q \<longleftrightarrow> (2::rat) powi k * of_int q \<le> of_int a"
    using qr by (rule pos_le_divide_eq)
  also have "\<dots> \<longleftrightarrow> of_int q / 2 ^ n \<le> (of_int a :: rat)"
    by (simp only: H2 divide_inverse ac_simps)
  also have "\<dots> \<longleftrightarrow> of_int q \<le> (of_int a :: rat) * 2 ^ n"
    using pos by (rule pos_divide_le_eq)
  also have "\<dots> \<longleftrightarrow> of_int q \<le> (of_int (a * 2 ^ n) :: rat)"
    by (simp only: of_int_mult of_int_power of_int_numeral)
  also have "\<dots> \<longleftrightarrow> q \<le> a * 2 ^ nat (- k)"
    by (simp only: of_int_le_iff n_def)
  finally show ?thesis .
qed

lemma ilog2_ratio_bounds:
  assumes a: "0 < a" and q: "0 < q"
  shows "(2::rat) powi ilog2_ratio a q \<le> of_int a / of_int q
    \<and> of_int a / of_int q < (2::rat) powi (ilog2_ratio a q + 1)"
proof -
  define ba bq where "ba = int (bit_length (nat a))" and "bq = int (bit_length (nat q))"
  define k where "k = ba - bq"
  have A: "(2::rat) powi (ba - 1) \<le> of_int a" "of_int a < (2::rat) powi ba"
    using pow2_bit_length [OF a] by (simp_all add: ba_def)
  have Q: "(2::rat) powi (bq - 1) \<le> of_int q" "of_int q < (2::rat) powi bq"
    using pow2_bit_length [OF q] by (simp_all add: bq_def)
  have lo: "(2::rat) powi (k - 1) < of_int a / of_int q"
  proof -
    have "(2::rat) powi (k - 1) = 2 powi (ba - 1) / 2 powi bq"
      by (simp add: k_def power_int_diff [symmetric] algebra_simps)
    also have "\<dots> < of_int a / of_int q"
      by (rule frac_less2) (use A Q q in auto)
    finally show ?thesis .
  qed
  have hi: "of_int a / of_int q < (2::rat) powi (k + 1)"
  proof -
    have "of_int a / of_int q < (2::rat) powi ba / 2 powi (bq - 1)"
      by (rule frac_less) (use A Q a in auto)
    also have "\<dots> = (2::rat) powi (k + 1)"
      by (simp add: k_def power_int_diff [symmetric] algebra_simps)
    finally show ?thesis .
  qed
  have qr: "(0::rat) < of_int q" using q by simp
  have test: "(if 0 \<le> k then q * 2 ^ nat k \<le> a else q \<le> a * 2 ^ nat (- k))
      \<longleftrightarrow> (2::rat) powi k \<le> of_int a / of_int q"
    using pow2_le_ratio_nonneg [OF _ qr] pow2_le_ratio_neg [OF _ qr] by simp
  have "ilog2_ratio a q
      = (if (if 0 \<le> k then q * 2 ^ nat k \<le> a else q \<le> a * 2 ^ nat (- k)) then k else k - 1)"
    unfolding ilog2_ratio_def Let_def k_def ba_def bq_def by (rule refl)
  then have L: "ilog2_ratio a q = (if (2::rat) powi k \<le> of_int a / of_int q then k else k - 1)"
    by (simp only: test)
  show ?thesis
  proof (cases "(2::rat) powi k \<le> of_int a / of_int q")
    case True
    with L hi show ?thesis by simp
  next
    case False
    with L have l: "ilog2_ratio a q = k - 1" by (simp only: if_False)
    from lo have "(2::rat) powi (k - 1) \<le> of_int a / of_int q" by (rule less_imp_le)
    moreover have "of_int a / of_int q < (2::rat) powi k" using False by (simp only: not_le)
    ultimately show ?thesis by (simp only: l diff_add_cancel)
  qed
qed


lemma pow2_less_iff [simp]: "(2::rat) powi m < 2 powi n \<longleftrightarrow> m < n"
proof
  assume "(2::rat) powi m < 2 powi n"
  then show "m < n"
    using power_int_increasing [of n m "2::rat"] by (metis linorder_not_le one_le_numeral)
next
  assume "m < n"
  then show "(2::rat) powi m < 2 powi n"
    by (rule power_int_strict_increasing) simp
qed

lemma pow2_le_iff [simp]: "(2::rat) powi m \<le> 2 powi n \<longleftrightarrow> m \<le> n"
  by (meson linorder_not_le pow2_less_iff)

lemma pow2_add: "(2::rat) powi (m + n) = 2 powi m * 2 powi n"
  by (rule power_int_add) simp

lemma round_half_even_close:
  assumes d: "0 < d"
  shows "\<bar>(of_int (round_half_even n d) :: rat) - of_int n / of_int d\<bar> \<le> 1 / 2"
proof -
  let ?r = "round_half_even n d"
  have b: "\<bar>2 * (?r * d - n)\<bar> \<le> d" using d by (rule round_half_even_bound)
  have dr: "(0::rat) < of_int d" using d by simp
  have eq: "(of_int ?r :: rat) - of_int n / of_int d = of_int (?r * d - n) / of_int d"
    using dr by (simp add: field_simps)
  have "(of_int \<bar>2 * (?r * d - n)\<bar> :: rat) \<le> of_int d"
    using b by (simp only: of_int_le_iff)
  then have "2 * \<bar>(of_int (?r * d - n) :: rat)\<bar> \<le> of_int d"
    by (simp only: of_int_abs of_int_mult abs_mult abs_numeral of_int_numeral)
  then have "\<bar>(of_int (?r * d - n) :: rat)\<bar> / of_int d \<le> 1 / 2"
    using dr by (simp add: divide_le_eq)
  with dr show ?thesis by (simp add: eq abs_divide)
qed


lemma pow2_nonneg_exp: "0 \<le> k \<Longrightarrow> (2::rat) powi k = 2 ^ nat k"
  by (metis nat_0_le power_int_of_nat)

lemma pow2_neg_exp: "k < 0 \<Longrightarrow> (2::rat) powi k = inverse (2 ^ nat (- k))"
  by (metis add.inverse_inverse less_le nat_0_le neg_0_le_iff_le power_int_minus power_int_of_nat)

lemma round_mantissa_close:
  assumes p: "p \<noteq> 0" and q: "0 < q"
  shows "\<bar>(of_int (round_mantissa p q e) :: rat)
           - of_int \<bar>p\<bar> / of_int q * 2 powi (e - ulp_exp p q e)\<bar> \<le> 1 / 2"
proof -
  let ?t = "ulp_exp p q e"
  have qr: "(0::rat) < of_int q" using q by simp
  show ?thesis
  proof (cases "?t \<le> e")
    case True
    have M: "round_mantissa p q e = round_half_even (\<bar>p\<bar> * 2 ^ nat (e - ?t)) q"
      using True by (simp add: round_mantissa_def Let_def)
    have P: "(2::rat) powi (e - ?t) = 2 ^ nat (e - ?t)"
      using True by (simp add: pow2_nonneg_exp)
    have E: "(of_int (\<bar>p\<bar> * 2 ^ nat (e - ?t)) :: rat) / of_int q
        = of_int \<bar>p\<bar> / of_int q * 2 powi (e - ?t)"
      by (simp only: P of_int_mult of_int_power of_int_numeral times_divide_eq_left mult_ac)
    have C: "\<bar>(of_int (round_half_even (\<bar>p\<bar> * 2 ^ nat (e - ?t)) q) :: rat)
        - of_int (\<bar>p\<bar> * 2 ^ nat (e - ?t)) / of_int q\<bar> \<le> 1 / 2"
      using q by (rule round_half_even_close)
    show ?thesis using C by (simp only: M E)
  next
    case False
    have M: "round_mantissa p q e = round_half_even \<bar>p\<bar> (q * 2 ^ nat (?t - e))"
      using False by (simp add: round_mantissa_def Let_def)
    have P: "(2::rat) powi (e - ?t) = inverse (2 ^ nat (?t - e))"
      using False by (simp add: pow2_neg_exp)
    have d: "0 < q * 2 ^ nat (?t - e)" using q by simp
    have E: "(of_int \<bar>p\<bar> :: rat) / of_int (q * 2 ^ nat (?t - e))
        = of_int \<bar>p\<bar> / of_int q * 2 powi (e - ?t)"
      by (simp only: P of_int_mult of_int_power of_int_numeral divide_inverse inverse_mult_distrib mult_ac)
    have C: "\<bar>(of_int (round_half_even \<bar>p\<bar> (q * 2 ^ nat (?t - e))) :: rat)
        - of_int \<bar>p\<bar> / of_int (q * 2 ^ nat (?t - e))\<bar> \<le> 1 / 2"
      using d by (rule round_half_even_close)
    show ?thesis using C by (simp only: M E)
  qed
qed

lemma scaled_below_2p53:
  assumes p: "p \<noteq> 0" and q: "0 < q"
  shows "of_int \<bar>p\<bar> / of_int q * 2 powi (e - ulp_exp p q e) < (2::rat) powi 53"
proof -
  let ?L = "ilog2_ratio \<bar>p\<bar> q" and ?t = "ulp_exp p q e" and ?r = "(of_int \<bar>p\<bar> :: rat) / of_int q"
  have B: "?r < 2 powi (?L + 1)"
    using ilog2_ratio_bounds [of "\<bar>p\<bar>" q] p q by simp
  have le: "?L + 1 + (e - ?t) \<le> 53" by (simp add: ulp_exp_def)
  have "?r * 2 powi (e - ?t) < 2 powi (?L + 1) * 2 powi (e - ?t)"
    using B by (rule mult_strict_right_mono) simp
  also have "\<dots> = 2 powi (?L + 1 + (e - ?t))" by (simp only: pow2_add)
  also have "\<dots> \<le> 2 powi 53" using le by (simp only: pow2_le_iff)
  finally show ?thesis .
qed

lemma scaled_normal_above_2p52:
  assumes p: "p \<noteq> 0" and q: "0 < q" and n: "ulp_exp p q e \<noteq> -1074"
  shows "(2::rat) powi 52 \<le> of_int \<bar>p\<bar> / of_int q * 2 powi (e - ulp_exp p q e)"
proof -
  let ?L = "ilog2_ratio \<bar>p\<bar> q" and ?t = "ulp_exp p q e" and ?r = "(of_int \<bar>p\<bar> :: rat) / of_int q"
  have B: "2 powi ?L \<le> ?r"
    using ilog2_ratio_bounds [of "\<bar>p\<bar>" q] p q by simp
  have eq: "?L + (e - ?t) = 52" using n by (simp add: ulp_exp_def)
  have "(2::rat) powi 52 = 2 powi ?L * 2 powi (e - ?t)" by (simp only: eq [symmetric] pow2_add)
  also have "\<dots> \<le> ?r * 2 powi (e - ?t)"
    using B by (rule mult_right_mono) simp
  finally show ?thesis .
qed


lemma int_near_below:
  assumes "\<bar>(of_int M :: rat) - s\<bar> \<le> 1 / 2" and "s < of_int B"
  shows "M \<le> B"
proof -
  have "(of_int M :: rat) < of_int B + 1" using abs_le_D1 [OF assms(1)] assms(2) by linarith
  then have "(of_int M :: rat) < of_int (B + 1)" by simp
  then show ?thesis by simp
qed

lemma int_near_above:
  assumes "\<bar>(of_int M :: rat) - s\<bar> \<le> 1 / 2" and "of_int B \<le> s"
  shows "B \<le> M"
proof -
  have "(of_int B :: rat) - 1 < of_int M" using abs_le_D2 [OF assms(1)] assms(2) by linarith
  then have "(of_int (B - 1) :: rat) < of_int M" by simp
  then show ?thesis by simp
qed

lemma round_mantissa_range:
  assumes p: "p \<noteq> 0" and q: "0 < q"
  shows "0 \<le> round_mantissa p q e \<and> round_mantissa p q e \<le> 2 ^ 53"
    and "ulp_exp p q e \<noteq> -1074 \<Longrightarrow> 2 ^ 52 \<le> round_mantissa p q e"
proof -
  let ?M = "round_mantissa p q e"
  let ?s = "(of_int \<bar>p\<bar> :: rat) / of_int q * 2 powi (e - ulp_exp p q e)"
  have C: "\<bar>of_int ?M - ?s\<bar> \<le> 1 / 2" using p q by (rule round_mantissa_close)
  have S: "?s < of_int (2 ^ 53)" using scaled_below_2p53 [OF p q, of e] by simp
  have "0 \<le> ?s"
    by (rule mult_nonneg_nonneg, rule divide_nonneg_nonneg) (use q in simp_all)
  then have S0: "of_int (-1) \<le> ?s" by simp
  have "-1 \<le> ?M" using C S0 by (rule int_near_above)
  moreover have "?M \<noteq> -1"
  proof
    assume "?M = -1"
    with C have "\<bar>-1 - ?s\<bar> \<le> 1 / 2" by simp
    from abs_le_D2 [OF this] \<open>0 \<le> ?s\<close> show False by linarith
  qed
  moreover have "?M \<le> 2 ^ 53" using C S by (rule int_near_below)
  ultimately show "0 \<le> ?M \<and> ?M \<le> 2 ^ 53" by simp
  assume n: "ulp_exp p q e \<noteq> -1074"
  have "of_int (2 ^ 52) \<le> ?s" using scaled_normal_above_2p52 [OF p q n] by simp
  with C show "2 ^ 52 \<le> ?M" by (rule int_near_above)
qed

lemma round_value_split:
  assumes p: "p \<noteq> 0"
  shows "(of_int p :: rat) / of_int q * 2 powi e
     = of_int (sgn p) * (of_int \<bar>p\<bar> / of_int q * 2 powi (e - t)) * 2 powi t"
proof -
  have "(2::rat) powi e = 2 powi (e - t) * 2 powi t" by (simp flip: pow2_add)
  moreover have "(of_int p :: rat) = of_int (sgn p) * of_int \<bar>p\<bar>"
    by (simp only: of_int_mult [symmetric] sgn_mult_abs)
  ultimately show ?thesis by (simp only: divide_inverse mult_ac)
qed

lemma carry_value:
  "(of_int (if M = 2 ^ 53 then 2 ^ 52 else M) :: rat) * 2 powi (if M = 2 ^ 53 then t + 1 else t)
     = of_int M * 2 powi t"
  by (simp add: pow2_add)

theorem round_double_is_double:
  assumes q: "0 < q"
  shows "is_double (round_double p q e)"
proof (cases "p = 0")
  case True
  then show ?thesis by (simp add: round_double_def)
next
  case False
  let ?M = "round_mantissa p q e" and ?t = "ulp_exp p q e"
  have R: "0 \<le> ?M" "?M \<le> 2 ^ 53" "?t \<noteq> -1074 \<Longrightarrow> 2 ^ 52 \<le> ?M"
    using round_mantissa_range [OF False q] by auto
  have T: "-1074 \<le> ?t" by (simp add: ulp_exp_def)
  show ?thesis
    using False R T by (auto simp: round_double_def Let_def abs_mult)
qed


lemma round_double_Num:
  assumes p: "p \<noteq> 0" and r: "round_double p q e = Num m t'"
  shows "(m = 0 \<and> t' = 0 \<and> round_mantissa p q e = 0)
    \<or> (m = sgn p * (if round_mantissa p q e = 2 ^ 53 then 2 ^ 52 else round_mantissa p q e)
       \<and> t' = (if round_mantissa p q e = 2 ^ 53 then ulp_exp p q e + 1 else ulp_exp p q e))"
  using p r by (auto simp: round_double_def Let_def split: if_splits)

theorem round_double_error:
  assumes q: "0 < q" and r: "round_double p q e = Num m t'"
  shows "\<bar>dval m t' - of_int p / of_int q * 2 powi e\<bar> \<le> 2 powi (ulp_exp p q e - 1)"
proof (cases "p = 0")
  case True
  with r have "m = 0" by (simp add: round_double_def)
  with True show ?thesis by (simp add: dval_def)
next
  case False
  define M t where "M = round_mantissa p q e" and "t = ulp_exp p q e"
  define s where "s = (of_int \<bar>p\<bar> :: rat) / of_int q * 2 powi (e - t)"
  have C: "\<bar>of_int M - s\<bar> \<le> 1 / 2"
    unfolding M_def s_def t_def using False q by (rule round_mantissa_close)
  have V: "(of_int p :: rat) / of_int q * 2 powi e = of_int (sgn p) * s * 2 powi t"
    unfolding s_def using False by (rule round_value_split)
  have h: "(2::rat) powi (t - 1) = 1 / 2 * 2 powi t"
    using pow2_add [of "t - 1" 1] by simp
  have pt: "(0::rat) < 2 powi t" by simp
  have sg: "\<bar>(of_int (sgn p) :: rat)\<bar> = 1" using False by (cases "0 < p") auto
  have "(m = 0 \<and> M = 0)
      \<or> (m = sgn p * (if M = 2 ^ 53 then 2 ^ 52 else M) \<and> t' = (if M = 2 ^ 53 then t + 1 else t))"
    using round_double_Num [OF False r] by (auto simp: M_def t_def)
  then show ?thesis
  proof
    assume "m = 0 \<and> M = 0"
    then have m: "m = 0" and "M = 0" by simp_all
    have "dval m t' - of_int p / of_int q * 2 powi e = of_int (sgn p) * ((of_int M - s) * 2 powi t)"
      by (simp only: m \<open>M = 0\<close> dval_def V) (simp add: algebra_simps)
    then have "\<bar>dval m t' - of_int p / of_int q * 2 powi e\<bar> = \<bar>of_int M - s\<bar> * 2 powi t"
      by (simp only: abs_mult sg mult_1_left abs_of_pos [OF pt])
    also have "\<dots> \<le> 1 / 2 * 2 powi t" using C by (rule mult_right_mono) simp
    finally show ?thesis by (simp only: t_def [symmetric] h)
  next
    assume "m = sgn p * (if M = 2 ^ 53 then 2 ^ 52 else M) \<and> t' = (if M = 2 ^ 53 then t + 1 else t)"
    then have m: "m = sgn p * (if M = 2 ^ 53 then 2 ^ 52 else M)"
      and t': "t' = (if M = 2 ^ 53 then t + 1 else t)" by simp_all
    have "dval m t' = of_int (sgn p) * (of_int M * 2 powi t)"
      unfolding dval_def m t' of_int_mult mult.assoc carry_value ..
    then have "dval m t' - of_int p / of_int q * 2 powi e = of_int (sgn p) * ((of_int M - s) * 2 powi t)"
      by (simp only: V) (simp add: algebra_simps)
    then have "\<bar>dval m t' - of_int p / of_int q * 2 powi e\<bar> = \<bar>of_int M - s\<bar> * 2 powi t"
      by (simp only: abs_mult sg mult_1_left abs_of_pos [OF pt])
    also have "\<dots> \<le> 1 / 2 * 2 powi t" using C by (rule mult_right_mono) simp
    finally show ?thesis by (simp only: t_def [symmetric] h)
  qed
qed


lemma int_near_eq:
  assumes "\<bar>(of_int M :: rat) - of_int N\<bar> \<le> 1 / 2"
  shows "M = N"
proof -
  have "(of_int (M - N) :: rat) < of_int 1" "of_int (-1) < (of_int (M - N) :: rat)"
    using abs_le_D1 [OF assms] abs_le_D2 [OF assms] by simp_all
  then have "M - N < 1" "-1 < M - N" by (simp_all only: of_int_less_iff)
  then show ?thesis by simp
qed

theorem round_double_exact:
  assumes q: "0 < q" and x: "of_int p / of_int q * 2 powi e = dval m s"
    and m: "\<bar>m\<bar> < 2 ^ 53" and s: "-1074 \<le> s" "s \<le> 971"
  shows "js_value (round_double p q e) = Some (dval m s)"
proof (cases "p = 0")
  case True
  with x have "dval m s = 0" by simp
  with True show ?thesis by (simp add: round_double_def dval_def)
next
  case False
  define M t where "M = round_mantissa p q e" and "t = ulp_exp p q e"
  define sc where "sc = (of_int \<bar>p\<bar> :: rat) / of_int q * 2 powi (e - t)"
  define L where "L = ilog2_ratio \<bar>p\<bar> q"
  have qr: "(0::rat) < of_int q" using q by simp
  have V: "(of_int p :: rat) / of_int q * 2 powi e = of_int (sgn p) * sc * 2 powi t"
    unfolding sc_def using False by (rule round_value_split)
  have sc0: "0 \<le> sc" unfolding sc_def
    by (rule mult_nonneg_nonneg, rule divide_nonneg_nonneg) (use q in simp_all)
  have sg: "\<bar>(of_int (sgn p) :: rat)\<bar> = 1" using False by (cases "0 < p") auto
  have dx: "dval m s = of_int (sgn p) * (sc * 2 powi t)"
    using V by (simp only: x mult.assoc)
  have pt: "(0::rat) < 2 powi t" by simp
  have ax: "\<bar>dval m s\<bar> = sc * 2 powi t"
    by (simp only: dx abs_mult sg mult_1_left abs_of_nonneg [OF sc0] abs_of_pos [OF pt])
  have am: "\<bar>dval m s\<bar> = of_int \<bar>m\<bar> * 2 powi s" by (simp add: dval_def abs_mult)
  \<comment> \<open>the unit in the last place of the rounding is at most that of the value\<close>
  have ts: "t \<le> s"
  proof -
    have "2 powi L \<le> (of_int \<bar>p\<bar> :: rat) / of_int q"
      using ilog2_ratio_bounds [of "\<bar>p\<bar>" q] False q by (simp add: L_def)
    then have "2 powi L * 2 powi e \<le> (of_int \<bar>p\<bar> :: rat) / of_int q * 2 powi e"
      by (rule mult_right_mono) simp
    also have "\<dots> = \<bar>dval m s\<bar>"
      using x qr by (simp add: abs_mult abs_divide flip: x)
    also have "\<dots> < 2 powi 53 * 2 powi s"
      unfolding am by (rule mult_strict_right_mono) (use m in simp_all)
    finally have "L + e < 53 + s" by (simp only: pow2_add [symmetric] pow2_less_iff)
    with s(1) show ?thesis by (simp add: t_def ulp_exp_def L_def)
  qed
  define N where "N = \<bar>m\<bar> * 2 ^ nat (s - t)"
  have scN: "sc = of_int N"
  proof -
    have "sc * 2 powi t = of_int \<bar>m\<bar> * 2 powi (s - t) * 2 powi t"
      using ax am by (simp add: mult.assoc flip: pow2_add)
    then have "sc = of_int \<bar>m\<bar> * 2 powi (s - t)" by simp
    with ts show ?thesis by (simp add: N_def pow2_nonneg_exp)
  qed
  have MN: "M = N"
    using round_mantissa_close [OF False q, of e] by (intro int_near_eq) (simp add: M_def scN [symmetric] sc_def t_def)
  have "sc < 2 powi 53" unfolding sc_def t_def using False q by (rule scaled_below_2p53)
  then have N53: "N < 2 ^ 53" by (simp add: scN)
  have N0: "N \<noteq> 0" using x False qr by (auto simp: N_def dval_def)
  have r: "round_double p q e = Num (sgn p * N) t"
    using False MN N53 N0 ts s by (simp add: round_double_def Let_def M_def t_def)
  have "dval (sgn p * N) t = of_int (sgn p) * (sc * 2 powi t)"
    by (simp only: dval_def of_int_mult scN mult.assoc)
  also have "\<dots> = dval m s" by (rule dx [symmetric])
  finally show ?thesis using r by simp
qed

subsection \<open>Evaluation rules\<close>

lemma bit_length_0 [js_eval]: "bit_length 0 = 0"
  and bit_length_1 [js_eval]: "bit_length 1 = 1"
  and bit_length_Suc_0 [js_eval]: "bit_length (Suc 0) = 1"
  by (simp_all add: bit_length.simps)

lemma bit_length_numeral [js_eval]:
  "bit_length (numeral k) = Suc (bit_length (numeral k div 2))"
  by (subst bit_length.simps) simp

lemmas [js_eval] = round_double_def ulp_exp_def ilog2_ratio_def round_mantissa_def
  round_half_even_def js_of_int_def js_zero_def dval_def

end
