(* ===== verification/JsArith.thy ===== *)
theory JsArith
  imports JsNumber
begin

text \<open>
  Facts on JavaScript arithmetic that the average price needs: a double result exists
  below \<open>2 ^ 1000\<close> (no overflow), the rounding error is at most \<open>2 ^ -53\<close> of the
  value for normal values, \<open>+\<close> on whole numbers up to \<open>2 ^ 53\<close> is exact, and \<open>/\<close>
  rounds the exact quotient. They end in \<open>mean_to_cents\<close>: the mean of a whole-number
  total over \<open>n\<close> items, as \<open>total / n\<close> computes it, rounds to the same cents as the
  exact mean, unless \<open>n\<close> is a multiple of 40 (where an exact half cent can fall between
  doubles).
\<close>

subsection \<open>Magnitude, overflow and relative error of the rounding\<close>

lemma pow2_floor_unique:
  assumes "(2::rat) powi k \<le> x" "x < 2 powi (k + 1)" "2 powi k' \<le> x" "x < 2 powi (k' + 1)"
  shows "k = k'"
proof -
  have "(2::rat) powi k < 2 powi (k' + 1)" "(2::rat) powi k' < 2 powi (k + 1)"
    using assms by linarith+
  then show ?thesis by simp
qed

lemma abs_ratio_pow2: "0 < q \<Longrightarrow> \<bar>of_int p / of_int q * (2::rat) powi e\<bar> = of_int \<bar>p\<bar> / of_int q * 2 powi e"
  by (simp add: abs_mult abs_divide)

lemma ilog2_ratio_scaled:
  assumes "p \<noteq> 0" "0 < q"
  shows "(2::rat) powi (ilog2_ratio \<bar>p\<bar> q + e) \<le> \<bar>of_int p / of_int q * 2 powi e\<bar>
    \<and> \<bar>of_int p / of_int q * 2 powi e\<bar> < (2::rat) powi (ilog2_ratio \<bar>p\<bar> q + e + 1)"
proof -
  let ?L = "ilog2_ratio \<bar>p\<bar> q"
  have b: "(2::rat) powi ?L \<le> of_int \<bar>p\<bar> / of_int q" "of_int \<bar>p\<bar> / of_int q < (2::rat) powi (?L + 1)"
    using ilog2_ratio_bounds [of "\<bar>p\<bar>" q] assms by simp_all
  have pe: "(0::rat) < 2 powi e" by simp
  have "(2::rat) powi ?L * 2 powi e \<le> of_int \<bar>p\<bar> / of_int q * 2 powi e"
    using b(1) by (rule mult_right_mono) simp
  moreover have "of_int \<bar>p\<bar> / of_int q * 2 powi e < (2::rat) powi (?L + 1) * 2 powi e"
    using b(2) pe by (rule mult_strict_right_mono)
  moreover have "(2::rat) powi (?L + e) = 2 powi ?L * 2 powi e" by (rule pow2_add)
  moreover have "(2::rat) powi (?L + e + 1) = 2 powi (?L + 1) * 2 powi e"
    using pow2_add [of "?L + 1" e] by (simp add: add_ac)
  ultimately show ?thesis unfolding abs_ratio_pow2 [OF assms(2)] by simp
qed

lemma round_double_finite:
  assumes q: "0 < q" and v: "\<bar>of_int p / of_int q * (2::rat) powi e\<bar> < 2 powi 1000"
  shows "\<exists>m t. round_double p q e = Num m t"
proof (cases "p = 0")
  case True
  then show ?thesis by (simp add: round_double_def)
next
  case False
  have "(2::rat) powi (ilog2_ratio \<bar>p\<bar> q + e) < 2 powi 1000"
    using ilog2_ratio_scaled [OF False q, of e] v by linarith
  then have L: "ilog2_ratio \<bar>p\<bar> q + e < 1000" by (rule pow2_less_iff [THEN iffD1])
  then have "ulp_exp p q e + 1 \<le> 971" by (simp add: ulp_exp_def)
  then show ?thesis using False by (auto simp: round_double_def Let_def)
qed

lemma ulp_exp_relative:
  assumes "p \<noteq> 0" and "0 < q" and "(2::rat) powi (-1022) \<le> \<bar>of_int p / of_int q * 2 powi e\<bar>"
  shows "(2::rat) powi (ulp_exp p q e - 1) \<le> \<bar>of_int p / of_int q * 2 powi e\<bar> / 2 ^ 53"
proof -
  let ?L = "ilog2_ratio \<bar>p\<bar> q + e"
  have b: "(2::rat) powi ?L \<le> \<bar>of_int p / of_int q * 2 powi e\<bar>"
    "\<bar>of_int p / of_int q * 2 powi e\<bar> < (2::rat) powi (?L + 1)"
    using ilog2_ratio_scaled [OF assms(1,2), of e] by simp_all
  have "(2::rat) powi (-1022) < 2 powi (?L + 1)" using assms(3) b(2) by linarith
  then have "-1022 < ?L + 1" by (rule pow2_less_iff [THEN iffD1])
  then have "-1022 \<le> ?L" by simp
  then have t: "ulp_exp p q e - 1 = ?L + (- 53)" by (simp add: ulp_exp_def)
  have m53: "(2::rat) powi (-53) = inverse (2 ^ 53)"
    by (metis power_int_minus power_int_of_nat of_nat_numeral)
  have "(2::rat) powi (ulp_exp p q e - 1) = 2 powi ?L / 2 ^ 53"
    by (simp only: t pow2_add m53 divide_inverse)
  with b(1) show ?thesis by (simp add: divide_right_mono)
qed

subsection \<open>Exact sums and quotients\<close>

lemma pow2_shift: "0 \<le> d \<Longrightarrow> (2::rat) powi (e + d) = 2 powi e * 2 ^ nat d"
  by (simp add: pow2_add pow2_nonneg_exp)

lemma js_add_Num:
  "js_add (Num m1 e1) (Num m2 e2) = round_double (m1 * 2 ^ nat (e1 - min e1 e2) + m2 * 2 ^ nat (e2 - min e1 e2)) 1 (min e1 e2)
   \<and> of_int (m1 * 2 ^ nat (e1 - min e1 e2) + m2 * 2 ^ nat (e2 - min e1 e2)) / of_int 1 * 2 powi (min e1 e2)
     = dval m1 e1 + dval m2 e2"
proof
  show "js_add (Num m1 e1) (Num m2 e2) = round_double (m1 * 2 ^ nat (e1 - min e1 e2) + m2 * 2 ^ nat (e2 - min e1 e2)) 1 (min e1 e2)"
    by (simp add: Let_def)
  let ?e = "min e1 e2"
  have a: "(2::rat) powi e1 = 2 powi ?e * 2 ^ nat (e1 - ?e)" using pow2_shift [of "e1 - ?e" ?e] by simp
  have b: "(2::rat) powi e2 = 2 powi ?e * 2 ^ nat (e2 - ?e)" using pow2_shift [of "e2 - ?e" ?e] by simp
  show "of_int (m1 * 2 ^ nat (e1 - ?e) + m2 * 2 ^ nat (e2 - ?e)) / of_int 1 * 2 powi ?e = dval m1 e1 + dval m2 e2"
    by (simp add: dval_def a b algebra_simps)
qed

lemma int_dval_repr:
  assumes "\<bar>i\<bar> \<le> 2 ^ 53"
  shows "\<exists>m s. (of_int i :: rat) = dval m s \<and> \<bar>m\<bar> < 2 ^ 53 \<and> 0 \<le> s \<and> s \<le> 1"
proof (cases "\<bar>i\<bar> < 2 ^ 53")
  case True
  then show ?thesis by (intro exI [of _ i] exI [of _ 0]) (simp add: dval_def)
next
  case False
  with assms have a: "\<bar>i\<bar> = 2 ^ 53" by simp
  have "(of_int i :: rat) = dval (sgn i * 2 ^ 52) 1"
  proof (cases "0 \<le> i")
    case True
    with a have "i = 2 ^ 53" by simp
    then show ?thesis by (simp add: dval_def)
  next
    case False
    with a have "i = - (2 ^ 53)" by simp
    then show ?thesis by (simp add: dval_def)
  qed
  then show ?thesis using a by (intro exI [of _ "sgn i * 2 ^ 52"] exI [of _ 1]) (simp add: abs_mult abs_sgn_eq)
qed

lemma round_double_int_exact:
  assumes "0 < q" and "of_int p / of_int q * 2 powi e = (of_int i :: rat)" and "\<bar>i\<bar> \<le> 2 ^ 53"
  shows "js_value (round_double p q e) = Some (of_int i)"
proof -
  obtain m s where r: "(of_int i :: rat) = dval m s" "\<bar>m\<bar> < 2 ^ 53" "0 \<le> s" "s \<le> 1"
    using int_dval_repr [OF assms(3)] by blast
  have "js_value (round_double p q e) = Some (dval m s)"
    using assms(1) by (rule round_double_exact) (use assms(2) r in simp_all)
  with r(1) show ?thesis by simp
qed

lemma js_add_int_exact:
  assumes "js_value x = Some (of_int a)" and "js_value y = Some (of_int b)" and "\<bar>a + b\<bar> \<le> 2 ^ 53"
  shows "js_value (js_add x y) = Some (of_int (a + b))"
proof -
  obtain m1 e1 m2 e2 where x: "x = Num m1 e1" and y: "y = Num m2 e2"
    using assms(1,2) by (cases x; cases y) auto
  have v: "dval m1 e1 + dval m2 e2 = of_int (a + b)" using assms(1,2) x y by simp
  let ?P = "m1 * 2 ^ nat (e1 - min e1 e2) + m2 * 2 ^ nat (e2 - min e1 e2)"
  have e: "js_add x y = round_double ?P 1 (min e1 e2)"
    and val: "of_int ?P / of_int 1 * 2 powi (min e1 e2) = (of_int (a + b) :: rat)"
    using js_add_Num [of m1 e1 m2 e2] v x y by simp_all
  have "js_value (round_double ?P 1 (min e1 e2)) = Some (of_int (a + b))"
    by (rule round_double_int_exact [OF _ val assms(3)]) simp
  with e show ?thesis by simp
qed

lemma js_div_Num:
  assumes "m2 \<noteq> 0"
  shows "js_div (Num m1 e1) (Num m2 e2) = round_double (m1 * sgn m2) \<bar>m2\<bar> (e1 - e2)
    \<and> of_int (m1 * sgn m2) / of_int \<bar>m2\<bar> * 2 powi (e1 - e2) = dval m1 e1 / dval m2 e2"
proof
  show "js_div (Num m1 e1) (Num m2 e2) = round_double (m1 * sgn m2) \<bar>m2\<bar> (e1 - e2)"
    using assms by simp
  have p: "(2::rat) powi (e1 - e2) = 2 powi e1 / 2 powi e2"
    by (simp add: power_int_diff)
  have "of_int (m1 * sgn m2) / of_int \<bar>m2\<bar> = (of_int m1 / of_int m2 :: rat)"
    using assms by (cases "0 < m2") (simp_all add: sgn_if)
  then show "of_int (m1 * sgn m2) / of_int \<bar>m2\<bar> * 2 powi (e1 - e2) = dval m1 e1 / dval m2 e2"
    by (simp add: p dval_def)
qed

subsection \<open>Divisibility: when the exact mean is a half cent\<close>

lemma floor_gap:
  fixes x y g :: rat
  assumes "of_int \<lfloor>y\<rfloor> + g \<le> y" and "y + g \<le> of_int \<lfloor>y\<rfloor> + 1" and "\<bar>x - y\<bar> < g"
  shows "\<lfloor>x\<rfloor> = \<lfloor>y\<rfloor>"
  using assms by (subst floor_eq_iff) (auto simp: abs_less_iff)

lemma mod_mult_zero_cases:
  fixes j n p :: nat
  assumes "p dvd j * n" and "0 < p"
  shows "(j mod p) * (n mod p) mod p = 0"
  using assms by (simp add: mod_mult_eq)

lemma five_dvd_mult: "5 dvd j * n \<Longrightarrow> \<not> 5 dvd j \<Longrightarrow> 5 dvd (n::nat)"
proof -
  assume a: "5 dvd j * n" and b: "\<not> 5 dvd j"
  have m: "(j mod 5) * (n mod 5) mod 5 = 0" using a by (rule mod_mult_zero_cases) simp
  have "j mod 5 \<in> {1, 2, 3, 4}" using b by (auto simp: dvd_eq_mod_eq_0)
  moreover have "n mod 5 \<in> {0, 1, 2, 3, 4}" by auto
  ultimately have "n mod 5 = 0" using m by auto
  then show ?thesis by (simp add: dvd_eq_mod_eq_0)
qed

lemma halve_dvd_odd:
  fixes k n m :: nat
  assumes "2 * m dvd k * n" and "odd k"
  shows "\<exists>a. n = 2 * a \<and> m dvd k * a"
proof -
  have "even (k * n)" using assms(1) by (rule dvd_trans [rotated]) simp
  with assms(2) have "even n" by simp
  then obtain a where a: "n = 2 * a" by blast
  have "2 * m dvd 2 * (k * a)" using assms(1) a by (simp add: mult.left_commute)
  then have "m dvd k * a" by (simp only: nat_mult_dvd_cancel1 zero_less_numeral)
  with a show ?thesis by blast
qed

lemma eight_dvd_mult_odd: "8 dvd k * n \<Longrightarrow> odd k \<Longrightarrow> 8 dvd (n::nat)"
proof -
  assume d: "8 dvd k * n" and k: "odd k"
  obtain a where a: "n = 2 * a" "4 dvd k * a" using halve_dvd_odd [of 4 k n] d k by auto
  obtain b where b: "a = 2 * b" "2 dvd k * b" using halve_dvd_odd [of 2 k a] a(2) k by auto
  obtain c where c: "b = 2 * c" using halve_dvd_odd [of 1 k b] b(2) k by auto
  show ?thesis using a(1) b(1) c by simp
qed

lemma odd_quotient_25:
  fixes k n S :: nat
  assumes kn: "k * n = 200 * S" and k: "odd k" and n: "\<not> 40 dvd n"
  shows "25 dvd k"
proof (rule ccontr)
  assume nk: "\<not> 25 dvd k"
  have "k * n = 8 * (25 * S)" using kn by simp
  then have "8 dvd k * n" by simp
  then have n8: "8 dvd n" using k by (rule eight_dvd_mult_odd)
  have "k * n = 25 * (8 * S)" using kn by simp
  then have k25: "25 dvd k * n" by simp
  have n5: "5 dvd n"
  proof (cases "5 dvd k")
    case False
    have "5 dvd k * n" using k25 by (rule dvd_trans [rotated]) simp
    then show ?thesis using False by (rule five_dvd_mult)
  next
    case True
    then obtain j where j: "k = 5 * j" by (auto simp: dvd_def)
    with nk have "\<not> 5 dvd j" by auto
    moreover have "5 * 5 dvd 5 * (j * n)" using k25 j by (simp add: mult.assoc)
    then have "5 dvd j * n" by (simp only: nat_mult_dvd_cancel1 zero_less_numeral)
    ultimately show ?thesis using five_dvd_mult by blast
  qed
  obtain a where a: "n = 8 * a" using n8 by (auto simp: dvd_def)
  have "5 dvd 8 * a" using n5 a by simp
  then have "5 dvd a" by (rule five_dvd_mult) simp
  then have "40 dvd n" using a by (auto simp: dvd_def)
  with n show False by simp
qed

subsection \<open>Rounding to cents\<close>

lemma cents_exact_case:
  fixes S n :: nat
  assumes n: "0 < n" and d: "(2 * n) dvd (200 * S + n)" and n40: "\<not> 40 dvd n"
  shows "\<exists>w. (of_nat S / of_nat n :: rat) = dval (int w) (-3) \<and> w \<le> 8 * S"
proof -
  obtain j where j: "200 * S + n = 2 * n * j" using d by (auto simp: dvd_def)
  have j1: "1 \<le> j" using j n by (cases j) auto
  define k where "k = 2 * j - 1"
  have kn: "k * n = 200 * S" using j j1 by (simp add: k_def diff_mult_distrib algebra_simps)
  have "odd k" using j1 by (simp add: k_def)
  then have "25 dvd k" using kn n40 by (intro odd_quotient_25 [of k n S]) simp_all
  then obtain w where w: "k = 25 * w" by (auto simp: dvd_def)
  have sw: "8 * S = n * w" using kn w by simp
  have a: "(of_nat S / of_nat n :: rat) = of_nat w / 8"
    using n sw by (simp add: field_simps flip: of_nat_mult) 
  have b: "dval (int w) (-3) = of_nat w / 8"
  proof -
    have "(2::rat) powi (-3) = 1 / 8" by (simp add: power_int_def power_divide)
    then show ?thesis by (simp add: dval_def)
  qed
  have c: "w \<le> 8 * S"
  proof -
    have "w \<le> n * w" using n by simp
    with sw show ?thesis by simp
  qed
  show ?thesis using a b c by metis
qed

lemma cents_floor_stable:
  fixes S n :: nat and d :: rat
  assumes n: "0 < n" and nd: "\<not> (2 * n) dvd (200 * S + n)"
    and err: "\<bar>d - of_nat S / of_nat n\<bar> \<le> of_nat S / of_nat n / 2 ^ 53" and S: "S \<le> 2 ^ 44"
  shows "\<lfloor>d * 100 + 1 / 2\<rfloor> = \<lfloor>(of_nat S / of_nat n :: rat) * 100 + 1 / 2\<rfloor>"
proof -
  define y where "y = (of_nat S / of_nat n * 100 + 1 / 2 :: rat)"
  define r where "r = (200 * S + n) mod (2 * n)"
  have nr: "(0::rat) < of_nat n" using n by simp
  have yq: "y = of_nat (200 * S + n) / of_nat (2 * n)" using nr by (simp add: y_def field_simps)
  have fy: "\<lfloor>y\<rfloor> = int ((200 * S + n) div (2 * n))" unfolding yq by (rule floor_divide_of_nat_eq)
  have split: "200 * S + n = (200 * S + n) div (2 * n) * (2 * n) + r" unfolding r_def by (rule div_mult_mod_eq [symmetric])
  have r1: "1 \<le> r" using nd by (simp add: r_def dvd_eq_mod_eq_0)
  have r2: "r + 1 \<le> 2 * n" using n by (simp add: r_def Suc_le_eq)
  define q where "q = (200 * S + n) div (2 * n)"
  have nz: "(of_nat (2 * n) :: rat) \<noteq> 0" using n by simp
  have "(of_nat (200 * S + n) :: rat) = of_nat q * of_nat (2 * n) + of_nat r"
    using split unfolding q_def by (metis of_nat_add of_nat_mult)
  then have "y = (of_nat q * of_nat (2 * n) + of_nat r) / of_nat (2 * n)"
    by (simp only: yq)
  also have "\<dots> = of_nat q + of_nat r / of_nat (2 * n)"
    using nz by (simp add: add_divide_distrib)
  finally have yq': "y = of_nat q + of_nat r / of_nat (2 * n)" .
  have "(of_int \<lfloor>y\<rfloor> :: rat) = of_nat q" by (simp only: fy q_def of_int_of_nat_eq)
  with yq' have yr: "y = of_int \<lfloor>y\<rfloor> + of_nat r / of_nat (2 * n)" by simp
  define g where "g = (1 / of_nat (2 * n) :: rat)"
  have g1: "g \<le> of_nat r / of_nat (2 * n)" using r1 nr by (simp add: g_def divide_right_mono)
  have g2: "of_nat r / of_nat (2 * n) + g \<le> 1"
  proof -
    have "of_nat r / of_nat (2 * n) + g = of_nat (r + 1) / (of_nat (2 * n) :: rat)"
      by (simp add: g_def add_divide_distrib)
    also have "\<dots> \<le> 1" using r2 nr by simp
    finally show ?thesis .
  qed
  have small: "\<bar>(d * 100 + 1 / 2) - y\<bar> < g"
  proof -
    have "(d * 100 + 1 / 2) - y = 100 * (d - of_nat S / of_nat n)"
      by (simp add: y_def algebra_simps)
    then have "\<bar>(d * 100 + 1 / 2) - y\<bar> = 100 * \<bar>d - of_nat S / of_nat n\<bar>"
      by (simp only: abs_mult abs_numeral)
    also have "\<dots> \<le> 100 * (of_nat S / of_nat n / 2 ^ 53)" using err by simp
    also have "\<dots> < g"
    proof -
      have "200 * S \<le> 200 * (2::nat) ^ 44" using S by simp
      also have "\<dots> < 2 ^ 53" by simp
      finally have "(of_nat (200 * S) :: rat) < of_nat (2 ^ 53)" by (simp only: of_nat_less_iff)
      then have "(200 :: rat) * of_nat S < 2 ^ 53" by simp
      then show ?thesis using nr by (simp add: g_def field_simps)
    qed
    finally show ?thesis .
  qed
  have "\<lfloor>d * 100 + 1 / 2\<rfloor> = \<lfloor>y\<rfloor>"
    by (rule floor_gap [where g = g]) (use yr g1 g2 small in linarith)+
  then show ?thesis by (simp add: y_def)
qed

lemma round_mantissa_nonneg: "0 < q \<Longrightarrow> 0 \<le> round_mantissa p q e"
  by (simp add: round_mantissa_def Let_def round_half_even_nonneg)

lemma round_double_nonneg:
  assumes "0 < q" and "0 \<le> p" and "round_double p q e = Num m t"
  shows "0 \<le> m"
proof (cases "p = 0")
  case True
  with assms(3) show ?thesis by (simp add: round_double_def)
next
  case False
  with assms round_double_Num [OF False assms(3)] round_mantissa_nonneg [OF assms(1), of p e]
  show ?thesis by (auto simp: sgn_if)
qed

lemma js_of_int_nat:
  assumes "0 < n" and "n \<le> 2 ^ 53"
  shows "\<exists>m e. js_of_int (int n) = Num m e \<and> m \<noteq> 0 \<and> dval m e = of_nat n"
proof -
  have "js_value (round_double (int n) 1 0) = Some (of_int (int n))"
    by (rule round_double_int_exact) (use assms(2) in simp_all)
  then obtain m e where "js_of_int (int n) = Num m e" "dval m e = of_nat n"
    by (cases "js_of_int (int n)") (simp_all add: js_of_int_def)
  moreover have "m \<noteq> 0" using calculation(2) assms(1) by (auto simp: dval_def)
  ultimately show ?thesis by blast
qed

text \<open>
  The mean of a whole-number total \<open>S\<close> over \<open>n\<close> items, as the code computes it (the
  total divided by \<open>n\<close>, rounded to a double), rounds to the same cents as the exact mean
  when \<open>S\<close> is at most \<open>2 ^ 44\<close> and \<open>n\<close> is no multiple of 40.
\<close>

lemma mean_to_cents:
  assumes T: "js_value T = Some (of_nat S)" and n: "0 < n" "n \<le> 2 ^ 53"
    and S: "S \<le> 2 ^ 44" and n40: "\<not> 40 dvd n"
  shows "\<exists>m t. js_div T (js_of_int (int n)) = Num m t \<and> 0 \<le> m \<and> dval m t < 10 ^ 21
    \<and> \<lfloor>dval m t * 100 + 1 / 2\<rfloor> = \<lfloor>(of_nat S / of_nat n :: rat) * 100 + 1 / 2\<rfloor>"
proof -
  obtain m1 e1 where t: "T = Num m1 e1" and v1: "dval m1 e1 = of_nat S"
    using T by (cases T) auto
  obtain m2 e2 where o: "js_of_int (int n) = Num m2 e2" and m2: "m2 \<noteq> 0" and v2: "dval m2 e2 = of_nat n"
    using js_of_int_nat [OF n] by blast
  let ?P = "m1 * sgn m2" and ?Q = "\<bar>m2\<bar>" and ?E = "e1 - e2"
  define v where "v = (of_nat S / of_nat n :: rat)"
  have div: "js_div T (js_of_int (int n)) = round_double ?P ?Q ?E"
    and val: "of_int ?P / of_int ?Q * 2 powi ?E = v"
    using js_div_Num [OF m2, of m1 e1] t o v1 v2 by (simp_all add: v_def)
  have q: "0 < ?Q" using m2 by simp
  have nr: "(0::rat) < of_nat n" using n by simp
  have v0: "0 \<le> v" by (simp add: v_def)
  have vS: "v \<le> of_nat S"
  proof -
    have "(1::rat) \<le> of_nat n" using n by simp
    then have "(of_nat S :: rat) \<le> of_nat S * of_nat n" by (simp add: mult_le_cancel_left1)
    then show ?thesis unfolding v_def using nr by (simp only: pos_divide_le_eq)
  qed
  have S44: "(of_nat S :: rat) \<le> 2 ^ 44"
    using S by (metis of_nat_le_iff of_nat_numeral of_nat_power)
  have fin: "\<bar>of_int ?P / of_int ?Q * (2::rat) powi ?E\<bar> < 2 powi 1000"
  proof -
    have "(2::rat) ^ 44 < 2 powi 1000" by (simp add: power_int_def)
    then show ?thesis using val v0 vS S44 by simp
  qed
  obtain m t where r: "round_double ?P ?Q ?E = Num m t"
    using round_double_finite [OF q fin] by blast
  have P0: "0 \<le> ?P"
  proof (rule ccontr)
    assume "\<not> 0 \<le> ?P"
    then have a: "(of_int ?P :: rat) < 0" by linarith
    have "(0::rat) < of_int ?Q" using q by (simp only: of_int_0_less_iff)
    with a have "(of_int ?P :: rat) / of_int ?Q < 0" by (rule divide_neg_pos)
    then have "of_int ?P / of_int ?Q * (2::rat) powi ?E < 0" by (rule mult_neg_pos) simp
    with val v0 show False by simp
  qed
  have m0: "0 \<le> m" by (rule round_double_nonneg [OF q P0 r])
  define d where "d = dval m t"
  have err: "\<bar>d - v\<bar> \<le> v / 2 ^ 53"
  proof (cases "?P = 0")
    case True
    then have "m = 0" "t = 0" using r by (simp_all add: round_double_def)
    moreover have "v = 0" using val True by simp
    ultimately show ?thesis by (simp add: d_def dval_def)
  next
    case False
    have e1: "\<bar>d - v\<bar> \<le> 2 powi (ulp_exp ?P ?Q ?E - 1)"
      using round_double_error [OF q r] val by (simp add: d_def)
    have "v \<noteq> 0" unfolding val [symmetric] using False q by simp
    then have "1 \<le> S" by (auto simp: v_def)
    then have "(1::rat) / 2 ^ 53 \<le> v"
      using n nr unfolding v_def by (simp add: frac_le)
    moreover have "(2::rat) powi (-1022) \<le> 1 / 2 ^ 53" by (simp add: power_int_def power_divide)
    ultimately have "(2::rat) powi (-1022) \<le> \<bar>of_int ?P / of_int ?Q * 2 powi ?E\<bar>" using val v0 by simp
    then have "(2::rat) powi (ulp_exp ?P ?Q ?E - 1) \<le> \<bar>of_int ?P / of_int ?Q * 2 powi ?E\<bar> / 2 ^ 53"
      by (rule ulp_exp_relative [OF False q])
    with e1 val v0 show ?thesis by simp
  qed
  have big: "d < 10 ^ 21"
  proof -
    have "d - v \<le> v / 2 ^ 53" using err by (rule order.trans [OF abs_ge_self])
    then have "d \<le> v + v / 2 ^ 53" by linarith
    also have "\<dots> \<le> 2 ^ 44 + 2 ^ 44" using vS S44 v0 by (simp add: divide_le_eq)
    also have "\<dots> < 10 ^ 21" by simp
    finally show ?thesis .
  qed
  have fl: "\<lfloor>d * 100 + 1 / 2\<rfloor> = \<lfloor>v * 100 + 1 / 2\<rfloor>"
  proof (cases "(2 * n) dvd (200 * S + n)")
    case True
    obtain w where w: "v = dval (int w) (-3)" "w \<le> 8 * S"
      using cents_exact_case [OF n(1) True n40] unfolding v_def by blast
    have "int w < 2 ^ 53"
    proof -
      have "w \<le> 8 * 2 ^ 44" using w(2) S by simp
      then show ?thesis by simp
    qed
    then have "js_value (round_double ?P ?Q ?E) = Some (dval (int w) (-3))"
      using val w(1) by (intro round_double_exact [OF q]) simp_all
    then have "d = v" using r w(1) by (simp add: d_def)
    then show ?thesis by simp
  next
    case False
    show ?thesis using cents_floor_stable [OF n(1) False, of d] err S unfolding v_def by simp
  qed
  show ?thesis
    using div r m0 big fl by (simp add: d_def v_def)
qed


lemma round_double_of_double:
  assumes d: "is_double (Num m e)" and q: "0 < q" and x: "of_int p / of_int q * 2 powi E = dval m e"
  shows "js_value (round_double p q E) = Some (dval m e)"
proof -
  have "\<bar>m\<bar> < 2 ^ 53 \<and> -1074 \<le> e \<and> e \<le> 971" using d by auto
  then show ?thesis using q x by (intro round_double_exact) simp_all
qed

end
