(* ===== verification/JsString.thy ===== *)
theory JsString
  imports JsArith
begin

text \<open>
  The two JavaScript library functions the screens apply to strings and numbers:
  \<open>parseFloat\<close> (ECMAScript 19.2.4), which \<open>ChefScreen.addItem\<close> applies to the price
  typed by the chef, and \<open>Number.prototype.toFixed\<close> (ECMAScript 21.1.3.3), which
  \<open>HomeScreen.averagePrice\<close> applies to the mean price with two fraction digits.
  \<open>parseFloat\<close> skips leading white space and reads the longest prefix that is a
  \<open>StrDecimalLiteral\<close> (sign, \<open>Infinity\<close> or digits with an optional point, fraction
  and exponent), rounded to the nearest double; with no such prefix it is \<open>NaN\<close>.
  \<open>toFixed\<close> prints \<open>NaN\<close> and the infinities by name, a magnitude of at least
  \<open>10 ^ 21\<close> by \<open>Number::toString\<close> (exponent notation), and any other value as the
  integer \<open>n\<close> nearest to \<open>x * 10 ^ f\<close> (the larger on a tie), with a point before its
  last \<open>f\<close> digits.
\<close>

subsection \<open>Decimal digits\<close>

definition is_dec_digit :: "char \<Rightarrow> bool" where
  "is_dec_digit c \<longleftrightarrow> (48::nat) \<le> of_char c \<and> of_char c \<le> (57::nat)"

definition digit_val :: "char \<Rightarrow> nat" where
  "digit_val c = of_char c - 48"

definition digit_char :: "nat \<Rightarrow> char" where
  "digit_char d = ''0123456789'' ! d"

definition digits_value :: "string \<Rightarrow> nat" where
  "digits_value ds = foldl (\<lambda>acc c. 10 * acc + digit_val c) 0 ds"

fun show_nat :: "nat \<Rightarrow> string" where
  "show_nat n = (if n < 10 then [digit_char n] else show_nat (n div 10) @ [digit_char (n mod 10)])"

declare show_nat.simps [simp del]

definition show_int :: "int \<Rightarrow> string" where
  "show_int i = (if i < 0 then CHR ''-'' # show_nat (nat (- i)) else show_nat (nat i))"

subsection \<open>parseFloat\<close>

text \<open>
  White space as \<open>TrimString\<close> removes it, restricted to the code units the model has:
  tab, line feed, vertical tab, form feed, carriage return, space and no-break space.
\<close>

definition js_whitespace :: "char \<Rightarrow> bool" where
  "js_whitespace c \<longleftrightarrow> of_char c \<in> {9, 10, 11, 12, 13, 32, 160 :: nat}"

definition trim_start :: "string \<Rightarrow> string" where
  "trim_start s = dropWhile js_whitespace s"

text \<open>The value a \<open>StrDecimalLiteral\<close> denotes: an infinity, or digits times a power of ten.\<close>

datatype str_decimal = Dec_Infinity bool | Dec_Digits bool nat int

definition scan_sign :: "string \<Rightarrow> bool \<times> string" where
  "scan_sign s = (case s of c # r \<Rightarrow>
       if c = CHR ''+'' then (False, r) else if c = CHR ''-'' then (True, r) else (False, s)
     | [] \<Rightarrow> (False, s))"

text \<open>
  The exponent part is taken only when an indicator, an optional sign and at least one
  digit follow: otherwise the longest literal ends before the \<open>e\<close>.
\<close>

definition scan_exponent :: "string \<Rightarrow> int" where
  "scan_exponent r = (case r of c # r' \<Rightarrow>
       if c = CHR ''e'' \<or> c = CHR ''E'' then
         (let (neg, r'') = scan_sign r'; ds = takeWhile is_dec_digit r'' in
          if ds = [] then 0 else if neg then - int (digits_value ds) else int (digits_value ds))
       else 0
     | [] \<Rightarrow> 0)"

definition scan_unsigned :: "string \<Rightarrow> (bool \<Rightarrow> str_decimal) option" where
  "scan_unsigned r =
     (if take 8 r = ''Infinity'' then Some Dec_Infinity
      else
        let ip = takeWhile is_dec_digit r; r1 = dropWhile is_dec_digit r;
            (fp, r2) = (case r1 of c # r1' \<Rightarrow>
                          if c = CHR ''.'' then (takeWhile is_dec_digit r1', dropWhile is_dec_digit r1')
                          else ([], r1)
                        | [] \<Rightarrow> ([], r1))
        in if ip = [] \<and> fp = [] then None
           else Some (\<lambda>neg. Dec_Digits neg (digits_value (ip @ fp))
                              (scan_exponent r2 - int (length fp))))"

definition str_decimal_prefix :: "string \<Rightarrow> str_decimal option" where
  "str_decimal_prefix s = (let (neg, r) = scan_sign s in map_option (\<lambda>f. f neg) (scan_unsigned r))"

definition decimal_to_double :: "bool \<Rightarrow> nat \<Rightarrow> int \<Rightarrow> jsnum" where
  "decimal_to_double neg d x =
     (let p = (if neg then - int d else int d) in
      if 0 \<le> x then round_double (p * 10 ^ nat x) 1 0 else round_double p (10 ^ nat (- x)) 0)"

definition parseFloat :: "string \<Rightarrow> jsnum" where
  "parseFloat s = (case str_decimal_prefix (trim_start s) of
       None \<Rightarrow> NaN
     | Some (Dec_Infinity neg) \<Rightarrow> (if neg then NegInfinity else Infinity)
     | Some (Dec_Digits neg d x) \<Rightarrow> decimal_to_double neg d x)"

text \<open>
  A text that cannot continue a decimal literal: empty, or starting with a character
  that is no digit, no point and no exponent indicator.
\<close>

definition ends_number :: "string \<Rightarrow> bool" where
  "ends_number r = (case r of [] \<Rightarrow> True
     | c # _ \<Rightarrow> \<not> is_dec_digit c \<and> c \<noteq> CHR ''.'' \<and> c \<noteq> CHR ''e'' \<and> c \<noteq> CHR ''E'')"

subsection \<open>Number::toString for magnitudes of at least \<open>10 ^ 21\<close>\<close>

text \<open>
  For such an \<open>x\<close> (an integer \<open>X\<close> with \<open>D\<close> decimal digits), \<open>Number::toString\<close>
  takes the least \<open>k\<close> for which some \<open>k\<close>-digit \<open>s\<close> has \<open>s * 10 ^ (n - k)\<close> rounding
  back to \<open>x\<close>, the \<open>s\<close> nearest \<open>X\<close> (the even one on a tie), and prints
  \<open>d.ddd e+(n-1)\<close>. Only the two multiples of \<open>10 ^ (D - k)\<close> around \<open>X\<close> can be
  the nearest such \<open>s\<close>; one of them reaching \<open>10 ^ k\<close> is the next power of ten.
\<close>

definition round_trip_candidate :: "jsnum \<Rightarrow> nat \<Rightarrow> nat \<Rightarrow> nat \<Rightarrow> (nat \<times> nat) option" where
  "round_trip_candidate x X D k =
     (let sc = 10 ^ (D - k); lo = X div sc; hi = (if X mod sc = 0 then lo else lo + 1);
          ok = (\<lambda>s. round_double (int s * int sc) 1 0 = x);
          dist = (\<lambda>s. if s * sc \<le> X then X - s * sc else s * sc - X);
          pick = (if ok lo \<and> ok hi then
                    (if dist lo < dist hi then Some lo else if dist hi < dist lo then Some hi
                     else if even lo then Some lo else Some hi)
                  else if ok lo then Some lo else if ok hi then Some hi else None)
      in map_option (\<lambda>s. if s = 10 ^ k then (10 ^ (k - 1), D + 1) else (s, D)) pick)"

fun shortest_digits :: "nat \<Rightarrow> jsnum \<Rightarrow> nat \<Rightarrow> nat \<Rightarrow> nat \<Rightarrow> nat \<times> nat \<times> nat" where
  "shortest_digits 0 x X D k = (X, D, D)"
| "shortest_digits (Suc fuel) x X D k =
     (case round_trip_candidate x X D k of
        Some (s, n) \<Rightarrow> (s, k, n)
      | None \<Rightarrow> shortest_digits fuel x X D (Suc k))"

definition large_to_string :: "nat \<Rightarrow> int \<Rightarrow> string" where
  "large_to_string a e =
     (let X = a * 2 ^ nat e; D = length (show_nat X);
          (s, k, n) = shortest_digits D (Num (int a) e) X D 1;
          ds = show_nat s
      in if k = 1 then ds @ ''e+'' @ show_nat (n - 1)
         else [hd ds] @ ''.'' @ tl ds @ ''e+'' @ show_nat (n - 1))"

subsection \<open>toFixed\<close>

text \<open>
  \<open>fixed_scaled a e f\<close> is the integer \<open>n\<close> nearest \<open>a * 2 ^ e * 10 ^ f\<close>, the larger
  one on a tie, for \<open>a \<ge> 0\<close>.
\<close>

definition fixed_scaled :: "nat \<Rightarrow> int \<Rightarrow> nat \<Rightarrow> nat" where
  "fixed_scaled a e f =
     (if 0 \<le> e then a * 10 ^ f * 2 ^ nat e
      else (2 * a * 10 ^ f + 2 ^ nat (- e)) div (2 * 2 ^ nat (- e)))"

definition at_least_1e21 :: "nat \<Rightarrow> int \<Rightarrow> bool" where
  "at_least_1e21 a e \<longleftrightarrow>
     (if 0 \<le> e then 10 ^ 21 \<le> a * 2 ^ nat e else 10 ^ 21 * 2 ^ nat (- e) \<le> a)"

definition insert_point :: "nat \<Rightarrow> string \<Rightarrow> string" where
  "insert_point f m =
     (if f = 0 then m
      else let k = length m;
               m' = (if k \<le> f then replicate (f + 1 - k) CHR ''0'' @ m else m);
               k' = length m'
           in take (k' - f) m' @ ''.'' @ drop (k' - f) m')"

fun toFixed :: "jsnum \<Rightarrow> nat \<Rightarrow> string" where
  "toFixed NaN f = ''NaN''"
| "toFixed Infinity f = ''Infinity''"
| "toFixed NegInfinity f = ''-Infinity''"
| "toFixed (Num m e) f =
     (let s = (if m < 0 then ''-'' else '''');
          a = nat \<bar>m\<bar>
      in if at_least_1e21 a e then s @ large_to_string a e
         else let n = fixed_scaled a e f;
                  ms = (if n = 0 then ''0'' else show_nat n)
              in s @ insert_point f ms)"

text \<open>
  The shape \<open>toFixed(f)\<close> promises for a finite value below \<open>10 ^ 21\<close>: an optional minus
  sign, at least one digit, a point and exactly \<open>f\<close> digits.
\<close>

definition is_fixed :: "nat \<Rightarrow> string \<Rightarrow> bool" where
  "is_fixed f s \<longleftrightarrow>
     (let b = (if take 1 s = ''-'' then drop 1 s else s);
          ip = takeWhile is_dec_digit b; r = dropWhile is_dec_digit b
      in ip \<noteq> [] \<and> take 1 r = ''.'' \<and> length (drop 1 r) = f \<and> list_all is_dec_digit (drop 1 r))"

subsection \<open>Evaluation rules\<close>

text \<open>
  Rules that compute the functions above on literal arguments only, so that a closed
  term evaluates by \<open>simp add: js_eval\<close> without unfolding a recursion on a
  variable.
\<close>

lemma show_nat_0 [js_eval]: "show_nat 0 = ''0''"
  and show_nat_1 [js_eval]: "show_nat 1 = ''1''"
  and show_nat_Suc_0 [js_eval]: "show_nat (Suc 0) = ''1''"
  by (simp_all add: show_nat.simps digit_char_def)

lemma show_nat_numeral [js_eval]:
  "show_nat (numeral k) = (if numeral k < (10::nat) then [digit_char (numeral k)]
     else show_nat (numeral k div 10) @ [digit_char (numeral k mod 10)])"
  by (rule show_nat.simps)

lemmas [js_eval] = digit_char_def is_dec_digit_def digit_val_def digits_value_def
  js_whitespace_def trim_start_def scan_sign_def scan_exponent_def scan_unsigned_def
  str_decimal_prefix_def decimal_to_double_def parseFloat_def at_least_1e21_def
  fixed_scaled_def insert_point_def show_int_def


subsection \<open>Printing and reading integers\<close>

lemma digit_char_digit [simp]: "d < 10 \<Longrightarrow> is_dec_digit (digit_char d)"
  by (auto simp: digit_char_def is_dec_digit_def less_Suc_eq numeral_eq_Suc)

lemma show_nat_digits: "show_nat n \<noteq> [] \<and> list_all is_dec_digit (show_nat n)"
proof (induction n rule: show_nat.induct)
  case (1 n)
  show ?case
  proof (cases "n < 10")
    case True
    have "show_nat n = [digit_char n]" using True by (simp only: show_nat.simps [of n] if_True)
    with True show ?thesis by simp
  next
    case False
    have e: "show_nat n = show_nat (n div 10) @ [digit_char (n mod 10)]"
      using False by (simp only: show_nat.simps [of n] if_False)
    from "1.IH" False have ih: "show_nat (n div 10) \<noteq> [] \<and> list_all is_dec_digit (show_nat (n div 10))"
      by simp
    have "n mod 10 < 10" by simp
    with e ih show ?thesis by simp
  qed
qed
lemma digit_val_digit_char [simp]: "d < 10 \<Longrightarrow> digit_val (digit_char d) = d"
  by (auto simp: digit_char_def digit_val_def less_Suc_eq numeral_eq_Suc)

lemma digits_value_foldl:
  "foldl (\<lambda>acc c. 10 * acc + digit_val c) a ys = a * 10 ^ length ys + digits_value ys"
proof (induction ys arbitrary: a)
  case Nil
  then show ?case by (simp add: digits_value_def)
next
  case (Cons y ys)
  have d: "digits_value (y # ys) = digit_val y * 10 ^ length ys + digits_value ys"
    using Cons.IH [of "digit_val y"] by (simp add: digits_value_def)
  show ?case
    using Cons.IH [of "10 * a + digit_val y"] d by (simp add: algebra_simps)
qed

lemma digits_value_append:
  "digits_value (xs @ ys) = digits_value xs * 10 ^ length ys + digits_value ys"
proof -
  have "digits_value (xs @ ys) = foldl (\<lambda>acc c. 10 * acc + digit_val c) (digits_value xs) ys"
    by (simp add: digits_value_def)
  also have "\<dots> = digits_value xs * 10 ^ length ys + digits_value ys"
    by (rule digits_value_foldl)
  finally show ?thesis .
qed

lemma digits_value_show_nat: "digits_value (show_nat n) = n"
proof (induction n rule: show_nat.induct)
  case (1 n)
  show ?case
  proof (cases "n < 10")
    case True
    then have "show_nat n = [digit_char n]" by (simp only: show_nat.simps [of n] if_True)
    with True show ?thesis by (simp add: digits_value_def)
  next
    case False
    with "1.IH" have ih: "digits_value (show_nat (n div 10)) = n div 10" by simp
    have e: "show_nat n = show_nat (n div 10) @ [digit_char (n mod 10)]"
      using False by (simp only: show_nat.simps [of n] if_False)
    have "digits_value [digit_char (n mod 10)] = n mod 10"
      by (simp add: digits_value_def)
    with e ih show ?thesis by (simp only: digits_value_append) simp
  qed
qed


lemma digit_not_whitespace: "is_dec_digit c \<Longrightarrow> \<not> js_whitespace c"
  by (auto simp: is_dec_digit_def js_whitespace_def)

lemma digit_not_sign: "is_dec_digit c \<Longrightarrow> c \<noteq> CHR ''+'' \<and> c \<noteq> CHR ''-'' \<and> c \<noteq> CHR ''I''"
  by (auto simp: is_dec_digit_def)

lemma show_nat_Cons: "\<exists>c cs. show_nat n = c # cs \<and> is_dec_digit c \<and> list_all is_dec_digit cs"
  using show_nat_digits [of n] by (cases "show_nat n") auto

lemma scan_digits_only:
  assumes "ds = c # cs" and "is_dec_digit c" and "list_all is_dec_digit cs"
  shows "scan_unsigned ds = Some (\<lambda>neg. Dec_Digits neg (digits_value ds) 0)"
proof -
  have tw: "takeWhile is_dec_digit ds = ds" and dw: "dropWhile is_dec_digit ds = []"
    using assms by (simp_all add: list_all_iff)
  have "c \<noteq> CHR ''I''" using assms digit_not_sign [of c] by auto
  then have "take 8 ds \<noteq> ''Infinity''" using assms(1) by auto
  with tw dw assms(1) show ?thesis
    by (simp only: scan_unsigned_def if_False Let_def) (simp add: scan_exponent_def)
qed

lemma scan_digits_then:
  assumes "ds = c # cs" and "is_dec_digit c" and "list_all is_dec_digit cs" and "ends_number r"
  shows "scan_unsigned (ds @ r) = Some (\<lambda>neg. Dec_Digits neg (digits_value ds) 0)"
proof -
  have tw: "takeWhile is_dec_digit (ds @ r) = ds" and dw: "dropWhile is_dec_digit (ds @ r) = r"
    using assms by (cases r; simp add: list_all_iff ends_number_def)+
  have "c \<noteq> CHR ''I''" using assms digit_not_sign [of c] by auto
  then have "take 8 (ds @ r) \<noteq> ''Infinity''" using assms(1) by auto
  moreover have "(case r of x # r1' \<Rightarrow> if x = CHR ''.'' then (takeWhile is_dec_digit r1', dropWhile is_dec_digit r1')
                   else ([], r) | [] \<Rightarrow> ([], r)) = ([], r)" and "scan_exponent r = 0"
    using assms(4) by (cases r; simp add: ends_number_def scan_exponent_def)+
  ultimately show ?thesis using tw dw assms(1)
    by (simp only: scan_unsigned_def if_False Let_def) simp
qed

text \<open>
  \<open>parseFloat\<close> reads the longest numeric prefix: digits followed by a text that cannot
  continue a number read as the digits alone.
\<close>

lemma parseFloat_digits_prefix:
  assumes "ds \<noteq> []" and "list_all is_dec_digit ds" and "ends_number r"
  shows "parseFloat (ds @ r) = parseFloat ds"
proof -
  obtain c cs where ds: "ds = c # cs" and c: "is_dec_digit c" and cs: "list_all is_dec_digit cs"
    using assms(1,2) by (cases ds) auto
  have "trim_start (ds @ r) = ds @ r" and "trim_start ds = ds"
    using ds c digit_not_whitespace by (simp_all add: trim_start_def)
  moreover have "scan_sign (ds @ r) = (False, ds @ r)" and "scan_sign ds = (False, ds)"
    using ds c digit_not_sign [of c] by (simp_all add: scan_sign_def)
  moreover have "scan_unsigned (ds @ r) = scan_unsigned ds"
    using scan_digits_then [OF ds c cs assms(3)] scan_digits_then [OF ds c cs, of "[]"]
    by (simp add: ends_number_def)
  ultimately show ?thesis by (simp add: parseFloat_def str_decimal_prefix_def)
qed

lemma parseFloat_show_nat: "parseFloat (show_nat n) = js_of_int (int n)"
proof -
  obtain c cs where s: "show_nat n = c # cs" and c: "is_dec_digit c" and cs: "list_all is_dec_digit cs"
    using show_nat_Cons by blast
  have "trim_start (show_nat n) = show_nat n"
    using s c digit_not_whitespace by (simp add: trim_start_def)
  moreover have "scan_sign (show_nat n) = (False, show_nat n)"
    using s c digit_not_sign [of c] by (simp add: scan_sign_def)
  moreover have "scan_unsigned (show_nat n) = Some (\<lambda>neg. Dec_Digits neg n 0)"
    using scan_digits_only [OF s c cs] by (simp add: digits_value_show_nat)
  ultimately show ?thesis
    by (simp add: parseFloat_def str_decimal_prefix_def decimal_to_double_def js_of_int_def)
qed

lemma parseFloat_show_int: "parseFloat (show_int i) = js_of_int i"
proof (cases "i < 0")
  case False
  then show ?thesis by (simp add: show_int_def parseFloat_show_nat)
next
  case True
  let ?n = "nat (- i)"
  obtain c cs where s: "show_nat ?n = c # cs" and c: "is_dec_digit c" and cs: "list_all is_dec_digit cs"
    using show_nat_Cons by blast
  have "trim_start (CHR ''-'' # show_nat ?n) = CHR ''-'' # show_nat ?n"
    by (simp add: trim_start_def js_whitespace_def)
  moreover have "scan_sign (CHR ''-'' # show_nat ?n) = (True, show_nat ?n)"
    by (simp add: scan_sign_def)
  moreover have "scan_unsigned (show_nat ?n) = Some (\<lambda>neg. Dec_Digits neg ?n 0)"
    using scan_digits_only [OF s c cs] by (simp add: digits_value_show_nat)
  ultimately show ?thesis
    using True by (simp add: show_int_def parseFloat_def str_decimal_prefix_def decimal_to_double_def js_of_int_def)
qed

lemma js_of_int_exact:
  assumes "\<bar>i\<bar> \<le> 2 ^ 53"
  shows "js_value (js_of_int i) = Some (of_int i)"
  unfolding js_of_int_def by (rule round_double_int_exact) (use assms in simp_all)

subsection \<open>The digits toFixed prints\<close>

lemma insert_point_split:
  assumes "0 < f"
  shows "\<exists>ip fp. insert_point f ms = ip @ CHR ''.'' # fp \<and> ip \<noteq> [] \<and> length fp = f
           \<and> ip @ fp = (if length ms \<le> f then replicate (f + 1 - length ms) CHR ''0'' @ ms else ms)"
proof -
  define m' where "m' = (if length ms \<le> f then replicate (f + 1 - length ms) CHR ''0'' @ ms else ms)"
  have k: "f < length m'" by (simp add: m'_def)
  have "insert_point f ms = take (length m' - f) m' @ CHR ''.'' # drop (length m' - f) m'"
    using assms by (simp add: insert_point_def m'_def Let_def)
  moreover have "take (length m' - f) m' \<noteq> []" using k by (cases m') auto
  moreover have "length (drop (length m' - f) m') = f" using k by simp
  moreover have "take (length m' - f) m' @ drop (length m' - f) m' = m'" by simp
  ultimately show ?thesis unfolding m'_def by blast
qed

lemma zero_digit [simp]: "is_dec_digit CHR ''0''"
  by (simp add: is_dec_digit_def)

lemma is_fixed_point:
  assumes "ip \<noteq> []" "length fp = f" "list_all is_dec_digit (ip @ fp)"
  shows "is_fixed f (ip @ CHR ''.'' # fp)" and "is_fixed f (CHR ''-'' # ip @ CHR ''.'' # fp)"
proof -
  obtain c cs where ip: "ip = c # cs" using assms(1) by (cases ip) auto
  have nd: "\<not> is_dec_digit CHR ''.''" by (simp add: is_dec_digit_def)
  have c: "c \<noteq> CHR ''-''" using assms(3) ip by (auto simp: is_dec_digit_def)
  have tw: "takeWhile is_dec_digit (ip @ CHR ''.'' # fp) = ip"
    and dw: "dropWhile is_dec_digit (ip @ CHR ''.'' # fp) = CHR ''.'' # fp"
    using assms(3) nd by (simp_all add: list_all_iff takeWhile_append2 dropWhile_append2)
  show "is_fixed f (ip @ CHR ''.'' # fp)"
    using assms tw dw c ip by (simp add: is_fixed_def)
  show "is_fixed f (CHR ''-'' # ip @ CHR ''.'' # fp)"
    using assms tw dw by (simp add: is_fixed_def)
qed



lemma digits_value_Cons: "digits_value (c # xs) = digit_val c * 10 ^ length xs + digits_value xs"
proof -
  have "digits_value [c] = digit_val c" by (simp add: digits_value_def)
  then show ?thesis using digits_value_append [of "[c]" xs] by simp
qed

lemma digits_value_zeros: "digits_value (replicate k CHR ''0'' @ ms) = digits_value ms"
proof -
  have "digits_value (replicate k CHR ''0'') = 0"
    by (induction k) (simp_all add: digits_value_Cons, simp_all add: digits_value_def digit_val_def)
  then show ?thesis by (simp add: digits_value_append)
qed

lemma fixed_mantissa:
  assumes "ms = (if n = 0 then ''0'' else show_nat n)"
  shows "ms \<noteq> [] \<and> list_all is_dec_digit ms \<and> digits_value ms = n"
proof (cases "n = 0")
  case True
  with assms show ?thesis by (simp add: digits_value_def digit_val_def)
next
  case False
  with assms show ?thesis using show_nat_digits [of n] by (simp add: digits_value_show_nat)
qed

lemma toFixed_below_1e21:
  assumes "0 < f" and "\<not> at_least_1e21 (nat \<bar>m\<bar>) e"
  shows "\<exists>ip fp. toFixed (Num m e) f = (if m < 0 then ''-'' else '''') @ ip @ CHR ''.'' # fp
           \<and> ip \<noteq> [] \<and> length fp = f \<and> list_all is_dec_digit (ip @ fp)
           \<and> digits_value (ip @ fp) = fixed_scaled (nat \<bar>m\<bar>) e f"
proof -
  define n where "n = fixed_scaled (nat \<bar>m\<bar>) e f"
  define ms where "ms = (if n = 0 then ''0'' else show_nat n)"
  have ms: "ms \<noteq> [] \<and> list_all is_dec_digit ms \<and> digits_value ms = n"
    by (rule fixed_mantissa) (simp add: ms_def)
  obtain ip fp where p: "insert_point f ms = ip @ CHR ''.'' # fp" and ip: "ip \<noteq> []"
    and fp: "length fp = f"
    and m': "ip @ fp = (if length ms \<le> f then replicate (f + 1 - length ms) CHR ''0'' @ ms else ms)"
    using insert_point_split [OF assms(1)] by blast
  have "toFixed (Num m e) f = (if m < 0 then ''-'' else '''') @ insert_point f ms"
    using assms(2) by (simp add: n_def ms_def Let_def)
  moreover have "list_all is_dec_digit (ip @ fp)" using m' ms by (auto simp: list_all_iff)
  moreover have "digits_value (ip @ fp) = n" using m' ms by (simp add: digits_value_zeros)
  ultimately show ?thesis using p ip fp n_def by (intro exI [of _ ip] exI [of _ fp]) simp
qed

lemma fixed_scaled_floor:
  "int (fixed_scaled a e f) = \<lfloor>dval (int a) e * 10 ^ f + 1 / 2\<rfloor>"
proof (cases "0 \<le> e")
  case True
  have "dval (int a) e * 10 ^ f + 1 / 2 = of_int (int (a * 10 ^ f * 2 ^ nat e)) + 1 / 2"
    using True by (simp add: dval_def power_int_def)
  then have "\<lfloor>dval (int a) e * 10 ^ f + 1 / 2\<rfloor> = int (a * 10 ^ f * 2 ^ nat e)"
    by linarith
  with True show ?thesis by (simp add: fixed_scaled_def)
next
  case False
  define k where "k = nat (- e)"
  have ek: "e = - int k" using False by (simp add: k_def)
  have pos: "(0::rat) < 2 ^ k" by simp
  have "dval (int a) e * 10 ^ f + 1 / 2
      = of_int (int (2 * a * 10 ^ f + 2 ^ k)) / of_int (int (2 * 2 ^ k))"
    using pos by (simp add: dval_def ek power_int_minus field_simps)
  then have "\<lfloor>dval (int a) e * 10 ^ f + 1 / 2\<rfloor> = int (2 * a * 10 ^ f + 2 ^ k) div int (2 * 2 ^ k)"
    by (simp only: floor_divide_of_int_eq)
  also have "\<dots> = int ((2 * a * 10 ^ f + 2 ^ k) div (2 * 2 ^ k))"
    by (simp only: zdiv_int)
  finally show ?thesis using False by (simp add: fixed_scaled_def k_def)
qed


lemma abs_dval: "\<bar>dval m e\<bar> = dval (int (nat \<bar>m\<bar>)) e"
  by (simp add: dval_def abs_mult)

lemma at_least_1e21_iff: "at_least_1e21 a e \<longleftrightarrow> 10 ^ 21 \<le> dval (int a) e"
proof (cases "0 \<le> e")
  case True
  have "dval (int a) e = of_nat (a * 2 ^ nat e)" using True by (simp add: dval_def power_int_def)
  then have "10 ^ 21 \<le> dval (int a) e \<longleftrightarrow> (10 ^ 21 :: nat) \<le> a * 2 ^ nat e"
    by (simp only: of_nat_le_iff [symmetric, where 'a = rat]) simp
  with True show ?thesis by (simp add: at_least_1e21_def)
next
  case False
  define k where "k = nat (- e)"
  have ek: "e = - int k" using False by (simp add: k_def)
  have pos: "(0::rat) < 2 ^ k" by simp
  have "dval (int a) e = of_nat a / 2 ^ k" by (simp add: dval_def ek power_int_minus divide_inverse)
  then have "10 ^ 21 \<le> dval (int a) e \<longleftrightarrow> 10 ^ 21 * 2 ^ k \<le> (of_nat a :: rat)"
    using pos by (simp add: pos_le_divide_eq)
  also have "\<dots> \<longleftrightarrow> (10 ^ 21 * 2 ^ k :: nat) \<le> a"
    by (simp only: of_nat_le_iff [symmetric, where 'a = rat]) simp
  finally show ?thesis using False by (simp add: at_least_1e21_def k_def)
qed

lemma not_digit_sign_point [simp]: "\<not> is_dec_digit CHR ''-''" "\<not> is_dec_digit CHR ''.''"
  by (simp_all add: is_dec_digit_def)

subsection \<open>Two-decimal prices\<close>

lemma parseFloat_fixed:
  assumes f: "0 < f"
  shows "parseFloat (insert_point f (show_nat n)) = round_double (int n) (10 ^ f) 0"
proof -
  obtain ip fp where p: "insert_point f (show_nat n) = ip @ CHR ''.'' # fp" and ip: "ip \<noteq> []"
    and fp: "length fp = f"
    and m': "ip @ fp = (if length (show_nat n) \<le> f then replicate (f + 1 - length (show_nat n)) CHR ''0'' @ show_nat n
                        else show_nat n)"
    using insert_point_split [OF f] by blast
  have sd: "show_nat n \<noteq> [] \<and> list_all is_dec_digit (show_nat n)" by (rule show_nat_digits)
  have dig: "list_all is_dec_digit (ip @ fp)" using m' sd by (auto simp: list_all_iff)
  have val: "digits_value (ip @ fp) = n" using m' by (simp add: digits_value_zeros digits_value_show_nat)
  obtain c cs where c: "ip = c # cs" using ip by (cases ip) auto
  have cd: "is_dec_digit c" using dig c by simp
  have tw: "takeWhile is_dec_digit (ip @ CHR ''.'' # fp) = ip"
    and dw: "dropWhile is_dec_digit (ip @ CHR ''.'' # fp) = CHR ''.'' # fp"
    using dig by (simp_all add: list_all_iff takeWhile_append2 dropWhile_append2)
  have fpd: "takeWhile is_dec_digit fp = fp" "dropWhile is_dec_digit fp = []"
    using dig by (simp_all add: list_all_iff)
  have inf: "take 8 (ip @ CHR ''.'' # fp) \<noteq> ''Infinity''"
    using c cd digit_not_sign [of c] by auto
  have su: "scan_unsigned (ip @ CHR ''.'' # fp) = Some (\<lambda>neg. Dec_Digits neg n (- int f))"
    using inf tw dw ip val fp by (simp add: scan_unsigned_def scan_exponent_def fpd)
  have ts: "trim_start (ip @ CHR ''.'' # fp) = ip @ CHR ''.'' # fp"
    using c cd digit_not_whitespace by (simp add: trim_start_def)
  have ss: "scan_sign (ip @ CHR ''.'' # fp) = (False, ip @ CHR ''.'' # fp)"
    using c cd digit_not_sign [of c] by (simp add: scan_sign_def)
  show ?thesis
    using f by (simp add: p parseFloat_def ts str_decimal_prefix_def ss su decimal_to_double_def)
qed

lemma dval_neg_iff: "dval m e < 0 \<longleftrightarrow> m < 0"
proof -
  have p: "(0::rat) < 2 powi e" by simp
  then have n: "\<not> (2::rat) powi e < 0" by linarith
  show ?thesis unfolding dval_def mult_less_0_iff using p n by simp
qed

lemma dval_abs: "dval \<bar>m\<bar> e = \<bar>dval m e\<bar>"
  by (simp add: dval_def abs_mult)

lemma not_at_least_1e21:
  "\<bar>dval m e\<bar> < 10 ^ 21 \<Longrightarrow> \<not> at_least_1e21 (nat \<bar>m\<bar>) e"
  by (simp only: at_least_1e21_iff abs_dval [symmetric] not_le)

lemma toFixed_same_value:
  assumes v: "dval m e = dval m' e'" and b: "\<bar>dval m e\<bar> < 10 ^ 21"
  shows "toFixed (Num m e) f = toFixed (Num m' e') f"
proof -
  have s: "(m < 0) = (m' < 0)" using v by (metis dval_neg_iff)
  have a1: "\<not> at_least_1e21 (nat \<bar>m\<bar>) e" using b by (rule not_at_least_1e21)
  have a2: "\<not> at_least_1e21 (nat \<bar>m'\<bar>) e'" using b v by (intro not_at_least_1e21) simp
  have "int (fixed_scaled (nat \<bar>m\<bar>) e f) = int (fixed_scaled (nat \<bar>m'\<bar>) e' f)"
    using v by (simp add: fixed_scaled_floor dval_abs)
  then have "fixed_scaled (nat \<bar>m\<bar>) e f = fixed_scaled (nat \<bar>m'\<bar>) e' f" by (rule of_nat_eq_iff [THEN iffD1])
  with s a1 a2 show ?thesis by (simp add: Let_def)
qed

lemma cents_of_rounded:
  assumes n: "n \<le> 2 ^ 44" and r: "round_double (int n) 100 0 = Num m e"
  shows "0 \<le> m \<and> \<bar>dval m e\<bar> < 10 ^ 21 \<and> fixed_scaled (nat \<bar>m\<bar>) e 2 = n"
proof -
  have m0: "0 \<le> m" by (rule round_double_nonneg [OF _ _ r]) simp_all
  define v where "v = (of_nat n / 100 :: rat)"
  have val: "of_int (int n) / of_int 100 * (2::rat) powi 0 = v" by (simp add: v_def)
  have err: "\<bar>dval m e - v\<bar> \<le> v / 2 ^ 53"
  proof (cases "n = 0")
    case True
    then have "m = 0" "e = 0" using r by (simp_all add: round_double_def)
    with True show ?thesis by (simp add: v_def dval_def)
  next
    case False
    have e1: "\<bar>dval m e - v\<bar> \<le> 2 powi (ulp_exp (int n) 100 0 - 1)"
      using round_double_error [OF _ r] val by simp
    have "(1::rat) / 100 \<le> v" using False by (simp add: v_def)
    moreover have "(2::rat) powi (-1022) \<le> 1 / 100" by (simp add: power_int_def power_divide)
    ultimately have lo: "(2::rat) powi (-1022) \<le> \<bar>of_int (int n) / of_int 100 * 2 powi 0\<bar>" using val by simp
    have "(2::rat) powi (ulp_exp (int n) 100 0 - 1) \<le> \<bar>of_int (int n) / of_int 100 * 2 powi 0\<bar> / 2 ^ 53"
      by (rule ulp_exp_relative [OF _ _ lo]) (use False in simp_all)
    with e1 val show ?thesis by (simp add: v_def)
  qed
  have v44: "v \<le> 2 ^ 44" using n by (simp add: v_def)
  have close: "\<bar>dval m e * 100 - of_nat n\<bar> < 1 / 2"
  proof -
    have "dval m e * 100 - of_nat n = 100 * (dval m e - v)" by (simp add: v_def algebra_simps)
    then have "\<bar>dval m e * 100 - of_nat n\<bar> = 100 * \<bar>dval m e - v\<bar>"
      by (simp only: abs_mult abs_numeral)
    also have "\<dots> \<le> 100 * (v / 2 ^ 53)" using err by simp
    also have "\<dots> \<le> 100 * (2 ^ 44 / 2 ^ 53)" using v44 by (simp add: divide_right_mono)
    also have "\<dots> < 1 / 2" by simp
    finally show ?thesis .
  qed
  have fl: "\<lfloor>dval m e * 100 + 1 / 2\<rfloor> = int n"
  proof -
    have "- (1 / 2) < dval m e * 100 - of_nat n" "dval m e * 100 - of_nat n < 1 / 2"
      using close by (simp_all only: abs_less_iff) linarith+
    then show ?thesis by (subst floor_eq_iff) simp_all
  qed
  have "int (fixed_scaled (nat \<bar>m\<bar>) e 2) = \<lfloor>dval m e * 100 + 1 / 2\<rfloor>"
    using fixed_scaled_floor [of "nat \<bar>m\<bar>" e 2] m0 by simp
  with fl have fs: "fixed_scaled (nat \<bar>m\<bar>) e 2 = n" by simp
  have "dval m e - v \<le> v / 2 ^ 53" using err by (rule order.trans [OF abs_ge_self])
  then have "dval m e \<le> v + v / 2 ^ 53" by linarith
  moreover have "0 \<le> dval m e" using m0 by (simp add: dval_def)
  ultimately have "\<bar>dval m e\<bar> < 10 ^ 21" using v44 by (simp add: divide_le_eq)
  with m0 fs show ?thesis by simp
qed

subsection \<open>The contracts of parseFloat and toFixed\<close>

text \<open>
  For a finite value \<open>x\<close> below \<open>10 ^ 21\<close> in magnitude and \<open>f > 0\<close>, \<open>toFixed(f)\<close>
  prints an optional minus sign, at least one digit, a point and exactly \<open>f\<close> digits; the
  sign is there exactly when \<open>x\<close> is negative (so also for a negative \<open>x\<close> that prints as
  zero), and the digits read as an integer are \<open>|x| * 10 ^ f\<close> rounded to nearest, halves
  up.
\<close>

lemma toFixed_spec:
  assumes "0 < f" and "\<bar>dval m e\<bar> < 10 ^ 21"
  shows "is_fixed f (toFixed (Num m e) f)
    \<and> (take 1 (toFixed (Num m e) f) = ''-'') = (m < 0)
    \<and> int (digits_value (filter is_dec_digit (toFixed (Num m e) f))) = \<lfloor>\<bar>dval m e\<bar> * 10 ^ f + 1 / 2\<rfloor>"
proof -
  have "\<not> at_least_1e21 (nat \<bar>m\<bar>) e" using assms(2) by (simp add: at_least_1e21_iff abs_dval)
  then obtain ip fp where t: "toFixed (Num m e) f = (if m < 0 then ''-'' else '''') @ ip @ CHR ''.'' # fp"
    and ip: "ip \<noteq> []" and fp: "length fp = f" and d: "list_all is_dec_digit (ip @ fp)"
    and v: "digits_value (ip @ fp) = fixed_scaled (nat \<bar>m\<bar>) e f"
    using toFixed_below_1e21 [OF assms(1)] by blast
  obtain c cs where c: "ip = c # cs" using ip by (cases ip) auto
  have cd: "c \<noteq> CHR ''-''" using d c by auto
  have "is_fixed f (toFixed (Num m e) f)"
    using is_fixed_point [OF ip fp d] t by simp
  moreover have "(take 1 (toFixed (Num m e) f) = ''-'') = (m < 0)"
    using t c cd by simp
  moreover have "filter is_dec_digit (toFixed (Num m e) f) = ip @ fp"
    using t d by (simp add: list_all_iff)
  ultimately show ?thesis using v by (simp add: fixed_scaled_floor abs_dval)
qed

text \<open>
  \<open>parseFloat\<close> reads back the decimal text of every integer of magnitude at most
  \<open>2 ^ 53\<close> exactly.
\<close>

lemma show_int_not_Nil [simp]: "show_int i \<noteq> []"
  using show_nat_digits [of "nat i"] by (simp add: show_int_def)

lemma parseFloat_is_double: "is_double (parseFloat s)"
  by (auto simp: parseFloat_def decimal_to_double_def Let_def round_double_is_double
           split: option.splits str_decimal.splits)

lemma parseFloat_show_int_exact:
  "\<bar>i\<bar> \<le> 2 ^ 53 \<Longrightarrow> js_value (parseFloat (show_int i)) = Some (of_int i)"
  by (simp add: parseFloat_show_int js_of_int_exact)

subsection \<open>The \<open>Number::toString\<close> search ends\<close>

text \<open>
  A quotient is a canonical double; canonical doubles of equal value are equal; so the
  digits of the integer \<open>X\<close> itself round back to \<open>x\<close>, and the search over digit
  counts \<open>1 .. D\<close> stops at a count whose candidate round-trips before its fuel runs out.
\<close>

lemma js_div_NumD:
  "js_div x y = Num m e \<Longrightarrow> (m = 0 \<and> e = 0) \<or> (\<exists>p q E. 0 < q \<and> round_double p q E = Num m e)"
  by (cases x; cases y) (auto split: if_splits)

lemma js_div_is_double:
  "js_div x y = Num m e \<Longrightarrow> is_double (Num m e)"
  by (drule js_div_NumD) (metis is_double.simps(1) round_double_is_double)

lemma js_add_is_double:
  assumes "js_add x y = Num m e"
  shows "is_double (Num m e)"
proof -
  obtain m1 e1 m2 e2 where x: "x = Num m1 e1" and y: "y = Num m2 e2"
    using assms by (cases x; cases y) auto
  have "is_double (round_double (m1 * 2 ^ nat (e1 - min e1 e2) + m2 * 2 ^ nat (e2 - min e1 e2)) 1 (min e1 e2))"
    by (rule round_double_is_double) simp
  then show ?thesis using assms x y by (simp only: js_add.simps Let_def)
qed

lemma dval_shift_eq:
  assumes "e \<le> e'" and "dval m e = dval m' e'"
  shows "m = m' * 2 ^ nat (e' - e)"
proof -
  have "(2::rat) powi e' = 2 powi e * 2 ^ nat (e' - e)"
    using pow2_shift [of "e' - e" e] assms(1) by simp
  then have "of_int m * 2 powi e = (of_int (m' * 2 ^ nat (e' - e)) :: rat) * 2 powi e"
    using assms(2) by (simp add: dval_def)
  then have "(of_int m :: rat) = of_int (m' * 2 ^ nat (e' - e))" by simp
  then show ?thesis by (simp only: of_int_eq_iff)
qed

lemma double_unique_lt:
  assumes d: "is_double (Num m e)" "is_double (Num m' e')" and lt: "e < e'"
    and v: "dval m e = dval m' e'"
  shows False
proof -
  have m: "m = m' * 2 ^ nat (e' - e)" using lt v by (intro dval_shift_eq) simp_all
  show False
  proof (cases "m' = 0")
    case True
    then show False using d lt m by auto
  next
    case False
    have a: "2 ^ 52 \<le> \<bar>m'\<bar>" using d(1) d(2) lt False by auto
    have "1 \<le> nat (e' - e)" using lt by simp
    then have b: "(2::int) ^ 1 \<le> 2 ^ nat (e' - e)" by (rule power_increasing) simp
    have "(2::int) ^ 52 * 2 ^ 1 \<le> \<bar>m'\<bar> * 2 ^ nat (e' - e)"
      using a b by (rule mult_mono) simp_all
    then have "2 ^ 53 \<le> \<bar>m\<bar>" by (simp add: m abs_mult)
    then show False using d(1) by auto
  qed
qed

lemma double_unique:
  assumes d: "is_double (Num m e)" "is_double (Num m' e')" and v: "dval m e = dval m' e'"
  shows "m = m' \<and> e = e'"
proof -
  have "e = e'"
  proof (rule linorder_cases [of e e'])
    assume "e < e'" then show ?thesis using double_unique_lt [OF d _ v] by blast
  next
    assume "e' < e" then show ?thesis using double_unique_lt [OF d(2,1) _ v [symmetric]] by blast
  qed
  with v show ?thesis using dval_shift_eq [of e e' m m'] by simp
qed

lemma round_double_own_digits:
  assumes d: "is_double (Num (int a) e)" and e: "0 \<le> e"
  shows "round_double (int (a * 2 ^ nat e)) 1 0 = Num (int a) e"
proof -
  have x: "of_int (int (a * 2 ^ nat e)) / of_int 1 * (2::rat) powi 0 = dval (int a) e"
    using e by (simp add: dval_def power_int_def)
  have r: "js_value (round_double (int (a * 2 ^ nat e)) 1 0) = Some (dval (int a) e)"
    using d x by (intro round_double_of_double) simp_all
  then obtain m' e' where n: "round_double (int (a * 2 ^ nat e)) 1 0 = Num m' e'"
    by (cases "round_double (int (a * 2 ^ nat e)) 1 0") simp_all
  have "is_double (Num m' e')" using round_double_is_double [of 1 "int (a * 2 ^ nat e)" 0] by (simp only: n)
  then show ?thesis using double_unique [OF _ d] r n by simp
qed

lemma round_trip_candidate_own:
  "round_double (int X) 1 0 = x \<Longrightarrow> round_trip_candidate x X D D \<noteq> None"
  by (simp add: round_trip_candidate_def Let_def)

lemma shortest_digits_found:
  "k + fuel = D + 1 \<Longrightarrow> k \<le> D \<Longrightarrow> round_trip_candidate x X D D \<noteq> None \<Longrightarrow>
     \<exists>s k' n. shortest_digits fuel x X D k = (s, k', n) \<and> k \<le> k' \<and> k' \<le> D
       \<and> round_trip_candidate x X D k' = Some (s, n)"
proof (induction fuel arbitrary: k)
  case 0
  then show ?case by simp
next
  case (Suc fuel)
  show ?case
  proof (cases "round_trip_candidate x X D k")
    case None
    then have "Suc k \<le> D" using Suc.prems by (cases "k = D") auto
    then obtain s k' n where "shortest_digits fuel x X D (Suc k) = (s, k', n)" "Suc k \<le> k'" "k' \<le> D"
        "round_trip_candidate x X D k' = Some (s, n)"
      using Suc.IH [of "Suc k"] Suc.prems by auto
    with None show ?thesis by auto
  qed (use Suc.prems in auto)
qed

lemma shortest_digits_fuel_indep:
  "k \<le> D \<Longrightarrow> round_trip_candidate x X D D \<noteq> None \<Longrightarrow> D + 1 - k \<le> fuel \<Longrightarrow> D + 1 - k \<le> fuel' \<Longrightarrow>
     shortest_digits fuel x X D k = shortest_digits fuel' x X D k"
proof (induction fuel arbitrary: k fuel')
  case 0
  then show ?case by simp
next
  case (Suc fuel)
  then obtain f' where f': "fuel' = Suc f'" by (cases fuel') auto
  show ?case
  proof (cases "round_trip_candidate x X D k")
    case None
    then have "Suc k \<le> D" using Suc.prems by (cases "k = D") auto
    then have "shortest_digits fuel x X D (Suc k) = shortest_digits f' x X D (Suc k)"
      using Suc.prems f' by (intro Suc.IH) simp_all
    with None f' show ?thesis by simp
  qed (simp add: f')
qed

lemma is_fixed_chars:
  assumes "is_fixed f s" and "x \<in> set s"
  shows "is_dec_digit x \<or> x = CHR ''.'' \<or> x = CHR ''-''"
proof -
  define b where "b = (if take 1 s = ''-'' then drop 1 s else s)"
  define r where "r = dropWhile is_dec_digit b"
  have r: "take 1 r = ''.''" "list_all is_dec_digit (drop 1 r)"
    using assms(1) by (simp_all add: is_fixed_def Let_def b_def r_def)
  have "set s \<subseteq> insert (CHR ''-'') (set b)"
    by (cases s) (auto simp: b_def)
  moreover have "set b \<subseteq> set (takeWhile is_dec_digit b) \<union> set r"
    using takeWhile_dropWhile_id [of is_dec_digit b] unfolding r_def by (metis Un_upper1 Un_upper2 set_append subset_refl)
  moreover have "set r \<subseteq> {CHR ''.''} \<union> set (drop 1 r)"
    using r(1) by (cases r) auto
  ultimately show ?thesis using assms(2) r(2) by (auto simp: list_all_iff dest: set_takeWhileD)
qed

end
