(* ===== verification/MenuTypes.thy ===== *)
theory MenuTypes
  imports JsString
begin

text \<open>
  The data the three screens share, declared in \<open>src/types/Types.ts\<close> (imported by
  every screen, not part of the sources and modelled from the specification): a course
  is one of the three string literals \<open>'Starters'\<close>, \<open>'Mains'\<close>, \<open>'Desserts'\<close>; a
  menu item (\<open>MenuItemType\<close>) has an id, a name, a description, a numeric price and a
  course. The list of menu items is the state that \<open>App\<close> owns and hands to the
  screens as \<open>menuItems\<close>. The field \<open>id\<close> is \<open>item_id\<close> here, since \<open>id\<close> is the
  identity function of HOL.
\<close>

datatype course = Starters | Mains | Desserts

definition course_name :: "course \<Rightarrow> js_string" where
  "course_name c = (case c of Starters \<Rightarrow> ''Starters'' | Mains \<Rightarrow> ''Mains'' | Desserts \<Rightarrow> ''Desserts'')"

record menu_item =
  item_id :: js_string
  name :: js_string
  description :: js_string
  price :: jsnum
  course :: course

text \<open>
  The courses form a finite enumerated type, so that properties quantified over all
  courses evaluate.
\<close>

instantiation course :: enum
begin

definition enum_course :: "course list" where
  "enum_course = [Starters, Mains, Desserts]"

definition enum_all_course :: "(course \<Rightarrow> bool) \<Rightarrow> bool" where
  "enum_all_course P \<longleftrightarrow> P Starters \<and> P Mains \<and> P Desserts"

definition enum_ex_course :: "(course \<Rightarrow> bool) \<Rightarrow> bool" where
  "enum_ex_course P \<longleftrightarrow> P Starters \<or> P Mains \<or> P Desserts"

instance
proof
  have U: "(UNIV :: course set) = {Starters, Mains, Desserts}"
    using course.exhaust by auto
  show "(UNIV :: course set) = set enum_class.enum"
    by (simp add: U enum_course_def)
  show "distinct (enum_class.enum :: course list)"
    by (simp add: enum_course_def)
  show "enum_class.enum_all P = Ball UNIV P" for P :: "course \<Rightarrow> bool"
    by (simp add: U enum_all_course_def)
  show "enum_class.enum_ex P = Bex UNIV P" for P :: "course \<Rightarrow> bool"
    by (simp add: U enum_ex_course_def)
qed

end

text \<open>The ids of a list of items, in order.\<close>

definition item_ids :: "menu_item list \<Rightarrow> js_string list" where
  "item_ids items = map item_id items"

text \<open>
  The store's well-formedness (the specification's data invariant that the code can
  keep): no two items share an id. Course membership is by construction of the type.
\<close>

definition ids_distinct :: "menu_item list \<Rightarrow> bool" where
  "ids_distinct items \<longleftrightarrow> distinct (item_ids items)"

lemma course_name_inj [simp]: "course_name c = course_name d \<longleftrightarrow> c = d"
  by (cases c; cases d) (simp_all add: course_name_def)

lemma course_name_simps [simp, menu_simps]:
  "course_name Starters = ''Starters''"
  "course_name Mains = ''Mains''"
  "course_name Desserts = ''Desserts''"
  by (simp_all add: course_name_def)

lemma course_name_eq_literal [simp]:
  "course_name c = ''Starters'' \<longleftrightarrow> c = Starters"
  "course_name c = ''Mains'' \<longleftrightarrow> c = Mains"
  "course_name c = ''Desserts'' \<longleftrightarrow> c = Desserts"
  by (cases c; simp add: course_name_def)+

lemma item_ids_simps [simp, menu_simps]:
  "item_ids [] = []"
  "item_ids (x # xs) = item_id x # item_ids xs"
  "item_ids (xs @ ys) = item_ids xs @ item_ids ys"
  by (simp_all add: item_ids_def)

lemma set_item_ids [simp]: "set (item_ids xs) = item_id ` set xs"
  by (simp add: item_ids_def)

lemma ids_distinct_filter [intro]: "ids_distinct xs \<Longrightarrow> ids_distinct (filter P xs)"
  by (simp add: ids_distinct_def item_ids_def distinct_map_filter)

lemma ids_distinct_snoc [simp]:
  "ids_distinct (xs @ [x]) \<longleftrightarrow> ids_distinct xs \<and> item_id x \<notin> item_id ` set xs"
  by (auto simp: ids_distinct_def)

end
