(* ===== verification/MenuStore.thy ===== *)
theory MenuStore
  imports MenuTypes
begin

text \<open>
  The abstract menu store of the specification (section 4.1): an ordered sequence of
  items whose price is a rational number, with the two mutators \<open>add\<close> and \<open>remove\<close> and
  the readers \<open>listByCourse\<close>, \<open>sectionsByCourse\<close> and \<open>averagePrice\<close>. \<open>add\<close> takes the
  price already parsed: \<open>None\<close> when the text is no finite number. The average is the
  mean rounded half up to two decimals. This theory is the contract; the screens'
  definitions are related to it in \<open>Refinement\<close>.
\<close>

record store_item =
  s_id :: js_string
  s_name :: js_string
  s_desc :: js_string
  s_price :: rat
  s_course :: course

datatype validation_error = ValidationError

definition spec_add ::
  "js_string \<Rightarrow> js_string \<Rightarrow> js_string \<Rightarrow> rat option \<Rightarrow> course option \<Rightarrow> store_item list
   \<Rightarrow> validation_error + store_item list" where
  "spec_add i n d p c store =
     (case (p, c) of
        (Some q, Some k) \<Rightarrow>
          if n = [] \<or> d = [] \<or> q < 0 then Inl ValidationError
          else Inr (store @ [\<lparr>s_id = i, s_name = n, s_desc = d, s_price = q, s_course = k\<rparr>])
      | _ \<Rightarrow> Inl ValidationError)"

definition spec_remove :: "js_string \<Rightarrow> store_item list \<Rightarrow> store_item list" where
  "spec_remove i store = filter (\<lambda>x. s_id x \<noteq> i) store"

definition spec_listByCourse :: "course option \<Rightarrow> store_item list \<Rightarrow> store_item list" where
  "spec_listByCourse sel store = (case sel of None \<Rightarrow> [] | Some c \<Rightarrow> filter (\<lambda>x. s_course x = c) store)"

definition spec_sectionsByCourse :: "store_item list \<Rightarrow> (course \<times> store_item list) list" where
  "spec_sectionsByCourse store = map (\<lambda>c. (c, spec_listByCourse (Some c) store)) [Starters, Mains, Desserts]"

text \<open>A non-negative rational printed half up with two decimals, e.g. \<open>12.5\<close> as \<open>12.50\<close>.\<close>

definition half_up_2 :: "rat \<Rightarrow> js_string" where
  "half_up_2 q = (let n = nat \<lfloor>q * 100 + 1 / 2\<rfloor> in insert_point 2 (if n = 0 then ''0'' else show_nat n))"

definition spec_averagePrice :: "course \<Rightarrow> store_item list \<Rightarrow> js_string" where
  "spec_averagePrice c store =
     (let xs = spec_listByCourse (Some c) store in
      if xs = [] then ''0.00'' else half_up_2 (sum_list (map s_price xs) / of_nat (length xs)))"

text \<open>The specification's store invariant (section 3).\<close>

definition spec_inv :: "store_item list \<Rightarrow> bool" where
  "spec_inv store \<longleftrightarrow> distinct (map s_id store) \<and> list_all (\<lambda>x. s_name x \<noteq> [] \<and> 0 \<le> s_price x) store"

lemma spec_add_inv:
  "spec_inv store \<Longrightarrow> i \<notin> set (map s_id store) \<Longrightarrow> spec_add i n d p c store = Inr store' \<Longrightarrow> spec_inv store'"
  by (auto simp: spec_add_def spec_inv_def split: option.splits if_splits)

lemma spec_remove_inv: "spec_inv store \<Longrightarrow> spec_inv (spec_remove i store)"
  by (auto simp: spec_remove_def spec_inv_def list_all_iff distinct_map_filter)

end
