(* ===== verification/ChefScreen.thy ===== *)
theory ChefScreen
  imports MenuTypes
begin

text \<open>
  The chef's admin screen, \<open>src/screens/ChefScreen.tsx\<close>. Its own state is the form:
  four \<open>useState\<close> hooks for the dish name, the description, the price as typed, and
  the course (\<open>null\<close> until one is picked). It receives the shared \<open>menuItems\<close> and
  \<open>setMenuItems\<close> from \<open>App\<close>. Its two operations are \<open>addItem\<close> (the Add Dish
  button) and \<open>removeItem\<close> (the Remove button of each listed dish); the text inputs and
  the course picker update the form. \<open>addItem\<close> either raises the alert \<open>Missing Info\<close>
  and changes nothing, or hands \<open>setMenuItems\<close> the list with the new item appended and
  clears the form. The fresh id comes from \<open>uuidv4()\<close>; the model takes the value that
  call returned as a parameter.
\<close>

record chef_state =
  chef_name :: js_string
  chef_desc :: js_string
  chef_price :: js_string
  chef_course :: "course option"

definition chef_init :: chef_state where
  "chef_init = \<lparr>chef_name = '''', chef_desc = '''', chef_price = '''', chef_course = None\<rparr>"

text \<open>An alert: \<open>Alert.alert(title, message)\<close>.\<close>

datatype alert = Alert js_string js_string

definition missing_info :: alert where
  "missing_info = Alert ''Missing Info'' ''Please fill out all fields''"

text \<open>
  \<open>addItem\<close>: the guard \<open>!name || !desc || !price || !course\<close> (JavaScript truthiness:
  an empty string and \<open>null\<close> are falsy), then the new item with \<open>parseFloat(price)\<close>,
  the call \<open>setMenuItems([...menuItems, newItem])\<close> and the four resets. The result is
  the alert, or the list passed to \<open>setMenuItems\<close> with the new form.
\<close>

definition addItem :: "js_string \<Rightarrow> menu_item list \<Rightarrow> chef_state \<Rightarrow> alert + (menu_item list \<times> chef_state)" where
  "addItem uuid menuItems st =
     (if \<not> js_truthy_str (chef_name st) \<or> \<not> js_truthy_str (chef_desc st)
         \<or> \<not> js_truthy_str (chef_price st) \<or> chef_course st = None
      then Inl missing_info
      else
        let newItem = \<lparr>item_id = uuid, name = chef_name st, description = chef_desc st,
                       price = parseFloat (chef_price st), course = the (chef_course st)\<rparr>
        in Inr (menuItems @ [newItem],
                st\<lparr>chef_name := '''', chef_desc := '''', chef_price := '''', chef_course := None\<rparr>))"

text \<open>\<open>removeItem\<close>: \<open>setMenuItems(menuItems.filter(item => item.id !== id))\<close>.\<close>

definition removeItem :: "js_string \<Rightarrow> menu_item list \<Rightarrow> menu_item list" where
  "removeItem i menuItems = filter (\<lambda>item. item_id item \<noteq> i) menuItems"

text \<open>
  The events the screen handles, wired in its JSX: typing into one of the three text
  inputs (\<open>onChangeText\<close>), picking in the course picker (\<open>onValueChange\<close>; its
  placeholder item has the value \<open>null\<close>), pressing Add Dish with the id \<open>uuidv4()\<close>
  returns, and pressing Remove on a listed dish.
\<close>

datatype chef_event =
    Change_Name js_string
  | Change_Desc js_string
  | Change_Price js_string
  | Pick_Course "course option"
  | Press_Add js_string
  | Press_Remove js_string

text \<open>
  One event: the alert it raises, if any, the list handed to \<open>setMenuItems\<close> (the list
  the screen was rendered with when nothing is set) and the new form.
\<close>

fun chef_handle :: "chef_event \<Rightarrow> menu_item list \<Rightarrow> chef_state \<Rightarrow> alert option \<times> menu_item list \<times> chef_state" where
  "chef_handle (Change_Name s) items st = (None, items, st\<lparr>chef_name := s\<rparr>)"
| "chef_handle (Change_Desc s) items st = (None, items, st\<lparr>chef_desc := s\<rparr>)"
| "chef_handle (Change_Price s) items st = (None, items, st\<lparr>chef_price := s\<rparr>)"
| "chef_handle (Pick_Course c) items st = (None, items, st\<lparr>chef_course := c\<rparr>)"
| "chef_handle (Press_Add uuid) items st =
     (case addItem uuid items st of
        Inl a \<Rightarrow> (Some a, items, st)
      | Inr (items', st') \<Rightarrow> (None, items', st'))"
| "chef_handle (Press_Remove i) items st = (None, removeItem i items, st)"

text \<open>
  The list under \<open>Remove Dishes\<close> (lines 111 to 133): the text \<open>No dishes added yet.\<close>
  for an empty list, otherwise one row per item, keyed by its id, showing its name and
  a Remove button that calls \<open>removeItem(item.id)\<close>.
\<close>

datatype chef_list_view = No_Dishes_Text js_string | Remove_Rows "(js_string \<times> js_string) list"

definition chef_list_render :: "menu_item list \<Rightarrow> chef_list_view" where
  "chef_list_render menuItems =
     (if length menuItems = 0 then No_Dishes_Text ''No dishes added yet.''
      else Remove_Rows (map (\<lambda>item. (item_id item, name item)) menuItems))"

text \<open>
  What the form displays. The three text inputs are controlled (\<open>value={name}\<close> and so
  on), so they show the state. The course picker is given no \<open>value\<close> prop (lines 91
  to 104): \<open>RNPickerSelect\<close> is then uncontrolled and keeps showing the item last
  picked on it, whatever the state \<open>course\<close> holds. \<open>chef_ui\<close> pairs the form state
  with that displayed selection.
\<close>

record chef_ui =
  form :: chef_state
  picker_shown :: "course option"

definition chef_ui_init :: chef_ui where
  "chef_ui_init = \<lparr>form = chef_init, picker_shown = None\<rparr>"

definition chef_ui_handle :: "chef_event \<Rightarrow> menu_item list \<Rightarrow> chef_ui \<Rightarrow> alert option \<times> menu_item list \<times> chef_ui" where
  "chef_ui_handle e items ui =
     (let (a, items', st') = chef_handle e items (form ui);
          shown = (case e of Pick_Course v \<Rightarrow> v | _ \<Rightarrow> picker_shown ui)
      in (a, items', \<lparr>form = st', picker_shown = shown\<rparr>))"

definition chef_form_display :: "chef_ui \<Rightarrow> js_string \<times> js_string \<times> js_string \<times> course option" where
  "chef_form_display ui = (chef_name (form ui), chef_desc (form ui), chef_price (form ui), picker_shown ui)"

text \<open>
  A sequence of events, each handled against the list of the previous one (the screen
  is rendered again with the new \<open>menuItems\<close> between two events), with the alerts
  raised.
\<close>

fun chef_ui_run :: "chef_event list \<Rightarrow> menu_item list \<Rightarrow> chef_ui \<Rightarrow> alert option list \<times> menu_item list \<times> chef_ui" where
  "chef_ui_run [] items ui = ([], items, ui)"
| "chef_ui_run (e # es) items ui =
     (let (a, items', ui') = chef_ui_handle e items ui;
          (as, items'', ui'') = chef_ui_run es items' ui'
      in (a # as, items'', ui''))"

text \<open>The events of the three text inputs (\<open>onChangeText\<close>).\<close>

fun text_event :: "chef_event \<Rightarrow> bool" where
  "text_event (Change_Name s) = True"
| "text_event (Change_Desc s) = True"
| "text_event (Change_Price s) = True"
| "text_event _ = False"

text \<open>Sample data: a filled form and the item it yields.\<close>

definition chef_filled :: chef_ui where
  "chef_filled = \<lparr>form = \<lparr>chef_name = ''Soup'', chef_desc = ''Hot soup'', chef_price = ''45'',
                            chef_course = Some Starters\<rparr>, picker_shown = Some Starters\<rparr>"

definition item_x :: menu_item where
  "item_x = \<lparr>item_id = ''x'', name = ''Soup'', description = ''Hot soup'', price = parseFloat ''45'', course = Starters\<rparr>"

subsection \<open>addItem\<close>

lemma addItem_InrD:
  assumes "addItem uuid items st = Inr (items', st')"
  shows "\<exists>c. chef_course st = Some c \<and> chef_name st \<noteq> [] \<and> chef_desc st \<noteq> []
    \<and> items' = items @ [\<lparr>item_id = uuid, name = chef_name st, description = chef_desc st,
                          price = parseFloat (chef_price st), course = c\<rparr>]
    \<and> st' = chef_init"
  using assms by (auto simp: addItem_def Let_def js_truthy_str_def chef_init_def split: if_splits)

lemma chef_ui_handle_items:
  "chef_ui_handle e items ui = (a, items', ui') \<Longrightarrow> \<exists>st'. chef_handle e items (form ui) = (a, items', st')"
  by (auto simp: chef_ui_handle_def split: prod.splits)

lemma chef_ui_run_append:
  "chef_ui_run (xs @ ys) items ui =
     (let (as, items', ui') = chef_ui_run xs items ui; (bs, items'', ui'') = chef_ui_run ys items' ui'
      in (as @ bs, items'', ui''))"
  by (induction xs arbitrary: items ui) (auto simp: Let_def split: prod.splits)

lemma chef_ui_run_text:
  "list_all text_event es \<Longrightarrow> \<exists>st. chef_ui_run es items ui =
     (replicate (length es) None, items, \<lparr>form = st, picker_shown = picker_shown ui\<rparr>)
     \<and> chef_course st = chef_course (form ui)"
proof (induction es arbitrary: ui)
  case Nil
  then show ?case by (intro exI [of _ "form ui"]) simp
next
  case (Cons e es)
  then obtain ui1 where h: "chef_ui_handle e items ui = (None, items, ui1)"
      "picker_shown ui1 = picker_shown ui" "chef_course (form ui1) = chef_course (form ui)"
    by (cases e) (auto simp: chef_ui_handle_def)
  from Cons obtain st where "chef_ui_run es items ui1 =
      (replicate (length es) None, items, \<lparr>form = st, picker_shown = picker_shown ui1\<rparr>)"
      "chef_course st = chef_course (form ui1)" by auto
  with h show ?case by (intro exI [of _ st]) simp
qed

lemma addItem_reset [simp]:
  "st\<lparr>chef_name := '''', chef_desc := '''', chef_price := '''', chef_course := None\<rparr> = chef_init"
  by (simp add: chef_init_def)

text \<open>
  C1: \<open>addItem\<close> fails with the alert exactly when the name, the description or the
  typed price is empty or no course is picked; it then changes neither the list nor the
  form.
\<close>

theorem addItem_rejects_missing:
  "addItem uuid items st = Inl missing_info \<longleftrightarrow>
     chef_name st = [] \<or> chef_desc st = [] \<or> chef_price st = [] \<or> chef_course st = None"
  by (auto simp: addItem_def js_truthy_str_def Let_def)

text \<open>
  C2: when every field is filled and a course is picked, \<open>addItem\<close> appends one item
  with the fresh id, the typed name and description, the price \<open>parseFloat\<close> reads
  and the picked course, and clears the form.
\<close>

theorem addItem_appends:
  assumes "chef_name st \<noteq> []" and "chef_desc st \<noteq> []" and "chef_price st \<noteq> []"
    and "chef_course st = Some c"
  shows "addItem uuid items st =
    Inr (items @ [\<lparr>item_id = uuid, name = chef_name st, description = chef_desc st,
                   price = parseFloat (chef_price st), course = c\<rparr>], chef_init)"
  using assms by (auto simp: addItem_def js_truthy_str_def Let_def)

theorem addItem_appends_witness:
  "''Soup'' \<noteq> [] \<and> ''Hot soup'' \<noteq> [] \<and> ''45.00'' \<noteq> [] \<and>
   addItem ''id-1'' []
     \<lparr>chef_name = ''Soup'', chef_desc = ''Hot soup'', chef_price = ''45.00'', chef_course = Some Starters\<rparr>
   = Inr ([\<lparr>item_id = ''id-1'', name = ''Soup'', description = ''Hot soup'',
             price = parseFloat ''45.00'', course = Starters\<rparr>], chef_init)"
  using addItem_appends [of "\<lparr>chef_name = ''Soup'', chef_desc = ''Hot soup'', chef_price = ''45.00'',
      chef_course = Some Starters\<rparr>" Starters "''id-1''" "[]"]
  by simp

text \<open>
  C11: a price typed as the decimal text of a whole number of at most \<open>2 ^ 53\<close> in
  magnitude is stored exactly: \<open>addItem\<close> appends an item whose price is that number.
\<close>

theorem addItem_integer_price:
  assumes "chef_name st \<noteq> []" and "chef_desc st \<noteq> []" and "chef_price st = show_int i"
    and "\<bar>i\<bar> \<le> 2 ^ 53" and "chef_course st = Some c"
  shows "\<exists>it. addItem uuid items st = Inr (items @ [it], chef_init) \<and> js_value (price it) = Some (of_int i)"
  using assms parseFloat_show_int_exact [OF assms(4)]
  by (simp add: addItem_def js_truthy_str_def Let_def)

theorem addItem_integer_price_witness:
  "''Soup'' \<noteq> [] \<and> ''Hot soup'' \<noteq> [] \<and> ''45'' = show_int 45 \<and> \<bar>45 :: int\<bar> \<le> 2 ^ 53
   \<and> (\<exists>it. addItem ''id-1'' []
          \<lparr>chef_name = ''Soup'', chef_desc = ''Hot soup'', chef_price = ''45'', chef_course = Some Starters\<rparr>
        = Inr ([it], chef_init) \<and> js_value (price it) = Some 45)"
  using addItem_integer_price [of "\<lparr>chef_name = ''Soup'', chef_desc = ''Hot soup'', chef_price = ''45'',
      chef_course = Some Starters\<rparr>" 45 Starters "''id-1''" "[]"]
  by (simp add: js_eval)

subsection \<open>removeItem\<close>

lemma removeItem_absent_noop:
  assumes "i \<notin> set (item_ids items)"
  shows "removeItem i items = items"
  using assms by (simp add: removeItem_def filter_key_absent)

text \<open>
  C3: \<open>removeItem\<close> is total and idempotent: removing the same id twice has the effect
  of removing it once, and removing an id that no item has leaves the list as it is,
  with no error.
\<close>

theorem removeItem_idempotent:
  "removeItem i (removeItem i items) = removeItem i items
   \<and> (i \<notin> set (item_ids items) \<longrightarrow> removeItem i items = items)"
  using removeItem_absent_noop [of i items] by (simp add: removeItem_def)

theorem removeItem_idempotent_witness:
  "''z'' \<notin> set (item_ids [item_x])
   \<and> removeItem ''z'' (removeItem ''z'' [item_x]) = removeItem ''z'' [item_x]
   \<and> removeItem ''z'' [item_x] = [item_x]"
  using removeItem_idempotent [of "''z''" "[item_x]"] by (simp add: item_x_def)

text \<open>
  C5: in a list whose ids are distinct, removing an id that occurs removes exactly one
  item, and the id no longer occurs.
\<close>

theorem removeItem_removes_one:
  assumes "ids_distinct items" and "i \<in> set (item_ids items)"
  shows "length (removeItem i items) = length items - 1 \<and> i \<notin> set (item_ids (removeItem i items))"
proof -
  have one: "length (filter (\<lambda>x. item_id x = i) items) = 1"
    using assms by (intro length_filter_key_unique) (simp_all add: ids_distinct_def item_ids_def)
  have "length (filter (\<lambda>x. item_id x = i) items) + length (removeItem i items) = length items"
    unfolding removeItem_def by (rule sum_length_filter_compl)
  with one show ?thesis by (auto simp: removeItem_def)
qed

theorem removeItem_removes_one_witness:
  "ids_distinct [\<lparr>item_id = ''a'', name = ''n'', description = ''d'', price = js_zero, course = Mains\<rparr>,
                 \<lparr>item_id = ''b'', name = ''m'', description = ''e'', price = js_zero, course = Desserts\<rparr>]
   \<and> ''a'' \<in> set (item_ids [\<lparr>item_id = ''a'', name = ''n'', description = ''d'', price = js_zero, course = Mains\<rparr>,
                 \<lparr>item_id = ''b'', name = ''m'', description = ''e'', price = js_zero, course = Desserts\<rparr>])
   \<and> length (removeItem ''a'' [\<lparr>item_id = ''a'', name = ''n'', description = ''d'', price = js_zero, course = Mains\<rparr>,
                 \<lparr>item_id = ''b'', name = ''m'', description = ''e'', price = js_zero, course = Desserts\<rparr>]) = 1"
  using removeItem_removes_one [of "[\<lparr>item_id = ''a'', name = ''n'', description = ''d'', price = js_zero, course = Mains\<rparr>,
                 \<lparr>item_id = ''b'', name = ''m'', description = ''e'', price = js_zero, course = Desserts\<rparr>]" "''a''"]
  by (simp add: ids_distinct_def)

subsection \<open>addItem and the ids\<close>

text \<open>
  C6: \<open>addItem\<close> keeps the ids of the list distinct, provided the id \<open>uuidv4()\<close>
  returned is not already in the list (the model's statement of uuid freshness).
\<close>

theorem addItem_keeps_ids_distinct:
  assumes "ids_distinct items" and "uuid \<notin> set (item_ids items)"
    and "addItem uuid items st = Inr (items', st')"
  shows "ids_distinct items'"
  using assms by (auto simp: addItem_def Let_def split: if_splits)

theorem addItem_keeps_ids_distinct_witness:
  "ids_distinct [] \<and> ''id-1'' \<notin> set (item_ids [])
   \<and> addItem ''id-1'' []
       \<lparr>chef_name = ''Soup'', chef_desc = ''Hot soup'', chef_price = ''45.00'', chef_course = Some Starters\<rparr>
     = Inr ([\<lparr>item_id = ''id-1'', name = ''Soup'', description = ''Hot soup'',
              price = parseFloat ''45.00'', course = Starters\<rparr>], chef_init)
   \<and> ids_distinct [\<lparr>item_id = ''id-1'', name = ''Soup'', description = ''Hot soup'',
              price = parseFloat ''45.00'', course = Starters\<rparr>]"
proof -
  have add: "addItem ''id-1'' []
       \<lparr>chef_name = ''Soup'', chef_desc = ''Hot soup'', chef_price = ''45.00'', chef_course = Some Starters\<rparr>
     = Inr ([\<lparr>item_id = ''id-1'', name = ''Soup'', description = ''Hot soup'',
              price = parseFloat ''45.00'', course = Starters\<rparr>], chef_init)"
    by (simp add: addItem_def chef_init_def)
  have "ids_distinct ([] :: menu_item list)" by (simp add: ids_distinct_def)
  with add show ?thesis
    using addItem_keeps_ids_distinct [OF _ _ add] by simp
qed

text \<open>
  C7: removing the id of an item that \<open>addItem\<close> just appended gives back the list
  before the addition, when that id was fresh.
\<close>

theorem addItem_removeItem_roundtrip:
  assumes "uuid \<notin> set (item_ids items)" and "addItem uuid items st = Inr (items', st')"
  shows "removeItem uuid items' = items"
  using assms by (auto simp: addItem_def removeItem_def Let_def filter_key_absent split: if_splits)

theorem addItem_removeItem_roundtrip_witness:
  "''id-1'' \<notin> set (item_ids [])
   \<and> addItem ''id-1'' []
       \<lparr>chef_name = ''Soup'', chef_desc = ''Hot soup'', chef_price = ''45.00'', chef_course = Some Starters\<rparr>
     = Inr ([\<lparr>item_id = ''id-1'', name = ''Soup'', description = ''Hot soup'',
              price = parseFloat ''45.00'', course = Starters\<rparr>], chef_init)
   \<and> removeItem ''id-1'' [\<lparr>item_id = ''id-1'', name = ''Soup'', description = ''Hot soup'',
              price = parseFloat ''45.00'', course = Starters\<rparr>] = []"
proof -
  have add: "addItem ''id-1'' []
       \<lparr>chef_name = ''Soup'', chef_desc = ''Hot soup'', chef_price = ''45.00'', chef_course = Some Starters\<rparr>
     = Inr ([\<lparr>item_id = ''id-1'', name = ''Soup'', description = ''Hot soup'',
              price = parseFloat ''45.00'', course = Starters\<rparr>], chef_init)"
    by (simp add: addItem_def chef_init_def)
  show ?thesis
    using add addItem_removeItem_roundtrip [OF _ add] by simp
qed


subsection \<open>The rendered list and the form\<close>

text \<open>
  C20: pressing Remove on a row takes exactly the rows with that id off the screen and
  keeps the others in order; the last one gone, the screen says \<open>No dishes added
  yet.\<close>
\<close>

theorem chef_list_render_remove:
  assumes "chef_list_render items = Remove_Rows rows"
  shows "chef_list_render (removeItem i items) =
    (if filter (\<lambda>r. fst r \<noteq> i) rows = [] then No_Dishes_Text ''No dishes added yet.''
     else Remove_Rows (filter (\<lambda>r. fst r \<noteq> i) rows))"
proof -
  have rows: "rows = map (\<lambda>item. (item_id item, name item)) items" and ne: "items \<noteq> []"
    using assms by (auto simp: chef_list_render_def split: if_splits)
  have "filter (\<lambda>r. fst r \<noteq> i) rows = map (\<lambda>item. (item_id item, name item)) (removeItem i items)"
    by (simp add: rows removeItem_def filter_map comp_def)
  then show ?thesis by (simp add: chef_list_render_def)
qed

theorem chef_list_render_remove_witness:
  "chef_list_render [item_x] = Remove_Rows [(''x'', ''Soup'')]
   \<and> chef_list_render (removeItem ''x'' [item_x]) = No_Dishes_Text ''No dishes added yet.''"
  using chef_list_render_remove [of "[item_x]" "[(''x'', ''Soup'')]" "''x''"]
  by (simp add: chef_list_render_def item_x_def)

text \<open>
  C21: the picker is uncontrolled, so after a successful Add Dish (made with the picker
  showing the form's course) it keeps showing that course while the form's course is
  \<open>null\<close>. Whatever the chef then types into the three inputs, the next Add Dish raises
  \<open>Missing Info\<close> and leaves the list as the first Add left it, although the picker
  displays a course.
\<close>

theorem chef_stale_picker_rejects:
  assumes add: "addItem u items (form ui) = Inr (items', st')"
    and sync: "picker_shown ui = chef_course (form ui)" and typed: "list_all text_event es"
  shows "\<exists>as ui''. chef_ui_run (Press_Add u # es @ [Press_Add v]) items ui = (None # as @ [Some missing_info], items', ui'')
    \<and> picker_shown ui'' = chef_course (form ui) \<and> chef_course (form ui) \<noteq> None \<and> chef_course (form ui'') = None"
proof -
  obtain c where c: "chef_course (form ui) = Some c" and st': "st' = chef_init"
    using addItem_InrD [OF add] by auto
  have h1: "chef_ui_handle (Press_Add u) items ui = (None, items', \<lparr>form = chef_init, picker_shown = Some c\<rparr>)"
    using add sync c st' by (simp add: chef_ui_handle_def)
  obtain st where r: "chef_ui_run es items' \<lparr>form = chef_init, picker_shown = Some c\<rparr> =
      (replicate (length es) None, items', \<lparr>form = st, picker_shown = Some c\<rparr>)" and n: "chef_course st = None"
    using chef_ui_run_text [OF typed, of items' "\<lparr>form = chef_init, picker_shown = Some c\<rparr>"] by (auto simp: chef_init_def)
  have "addItem v items' st = Inl missing_info" using n by (simp add: addItem_def)
  then have h2: "chef_ui_handle (Press_Add v) items' \<lparr>form = st, picker_shown = Some c\<rparr>
      = (Some missing_info, items', \<lparr>form = st, picker_shown = Some c\<rparr>)"
    by (simp add: chef_ui_handle_def)
  show ?thesis using h1 r h2 c n
    by (intro exI [of _ "replicate (length es) None"] exI [of _ "\<lparr>form = st, picker_shown = Some c\<rparr>"])
       (simp add: chef_ui_run_append Let_def)
qed

theorem chef_stale_picker_rejects_witness:
  "addItem ''x'' [] (form chef_filled) = Inr ([item_x], chef_init)
   \<and> picker_shown chef_filled = chef_course (form chef_filled)
   \<and> list_all text_event [Change_Name ''Tart'', Change_Desc ''Sweet'', Change_Price ''30'']
   \<and> (\<exists>as ui''. chef_ui_run (Press_Add ''x'' # [Change_Name ''Tart'', Change_Desc ''Sweet'', Change_Price ''30''] @ [Press_Add ''y''])
          [] chef_filled = (None # as @ [Some missing_info], [item_x], ui'')
        \<and> picker_shown ui'' = chef_course (form chef_filled) \<and> chef_course (form chef_filled) \<noteq> None
        \<and> chef_course (form ui'') = None)"
proof -
  have a: "addItem ''x'' [] (form chef_filled) = Inr ([item_x], chef_init)"
    by (simp add: addItem_def chef_filled_def item_x_def chef_init_def)
  have s: "picker_shown chef_filled = chef_course (form chef_filled)" by (simp add: chef_filled_def)
  have t: "list_all text_event [Change_Name ''Tart'', Change_Desc ''Sweet'', Change_Price ''30'']" by simp
  show ?thesis using chef_stale_picker_rejects [OF a s t, of "''y''"] a s t by blast
qed

text \<open>
  C37: after a successful Add Dish the Remove Dishes list shows the rows it showed
  (none if it said \<open>No dishes added yet.\<close>) followed by one row for the new dish, keyed
  by its fresh id and showing the typed name.
\<close>

theorem chef_list_render_add:
  assumes "addItem u items st = Inr (items', st')"
  shows "chef_list_render items' = Remove_Rows ((case chef_list_render items of
      No_Dishes_Text t \<Rightarrow> [] | Remove_Rows rs \<Rightarrow> rs) @ [(u, chef_name st)])"
  using addItem_InrD [OF assms] by (auto simp: chef_list_render_def)

theorem chef_list_render_add_witness:
  "addItem ''x'' [] (form chef_filled) = Inr ([item_x], chef_init)
   \<and> chef_list_render [item_x] = Remove_Rows [(''x'', chef_name (form chef_filled))]"
proof -
  have a: "addItem ''x'' [] (form chef_filled) = Inr ([item_x], chef_init)"
    by (simp add: addItem_def chef_filled_def item_x_def chef_init_def)
  show ?thesis using chef_list_render_add [OF a] a by (simp add: chef_list_render_def)
qed

end
