(* ===== verification/HomeScreen.thy ===== *)
theory HomeScreen
  imports MenuTypes
begin

text \<open>
  The home screen, \<open>src/screens/HomeScreen.tsx\<close>: it reads the shared list and shows
  one section per course, in the order of the array \<open>courses\<close>, each headed by the
  course and its average price. A course is compared as a string
  (\<open>item.course === course\<close>), as the code does. The average is the \<open>reduce\<close> sum of
  the prices in JavaScript numbers divided by the count, printed by \<open>toFixed(2)\<close>, or
  \<open>'0.00'\<close> when the course has no item. The list is rendered by a \<open>SectionList\<close>
  keyed by \<open>item.id\<close>.
\<close>

definition courses :: "js_string list" where
  "courses = [''Starters'', ''Mains'', ''Desserts'']"

record menu_section =
  title :: js_string
  data :: "menu_item list"

definition sections :: "menu_item list \<Rightarrow> menu_section list" where
  "sections menuItems =
     map (\<lambda>c. \<lparr>title = c, data = filter (\<lambda>item. course_name (course item) = c) menuItems\<rparr>) courses"

text \<open>The sum of the prices, \<open>items.reduce((sum, item) => sum + item.price, 0)\<close>.\<close>

definition price_total :: "menu_item list \<Rightarrow> jsnum" where
  "price_total items = foldl (\<lambda>sum item. js_add sum (price item)) js_zero items"

definition averagePrice :: "menu_item list \<Rightarrow> js_string \<Rightarrow> js_string" where
  "averagePrice menuItems c =
     (let items = filter (\<lambda>i. course_name (course i) = c) menuItems;
          total = price_total items
      in if length items \<noteq> 0 then toFixed (js_div total (js_of_int (int (length items)))) 2
         else ''0.00'')"

text \<open>
  The header of a section, \<open>{title}{' '}(Avg: R{averagePrice(title)})\<close>, and the
  rendered list: for each section its header and the keys of its rows.
\<close>

definition section_header :: "menu_item list \<Rightarrow> menu_section \<Rightarrow> js_string" where
  "section_header menuItems s = title s @ '' '' @ ''(Avg: R'' @ averagePrice menuItems (title s) @ '')''"

definition home_view :: "menu_item list \<Rightarrow> (js_string \<times> js_string list) list" where
  "home_view menuItems =
     map (\<lambda>s. (section_header menuItems s, map item_id (data s))) (sections menuItems)"

subsection \<open>Sample data\<close>

text \<open>
  Three items for the witnesses: a starter and a main with whole prices, and a starter
  whose price field held the text \<open>abc\<close>, which \<open>parseFloat\<close> reads as \<open>NaN\<close>.
\<close>

definition item_a :: menu_item where
  "item_a = \<lparr>item_id = ''a'', name = ''Soup'', description = ''Hot'', price = js_of_int 50, course = Starters\<rparr>"
definition item_b :: menu_item where
  "item_b = \<lparr>item_id = ''b'', name = ''Steak'', description = ''Grilled'', price = js_of_int 180, course = Mains\<rparr>"
definition item_c :: menu_item where
  "item_c = \<lparr>item_id = ''c'', name = ''Salad'', description = ''Cold'', price = parseFloat ''abc'', course = Starters\<rparr>"
definition item_w :: menu_item where
  "item_w = \<lparr>item_id = ''w'', name = ''Wagyu'', description = ''Rare'', price = Num 7629394531250000 17, course = Mains\<rparr>"

subsection \<open>Sections\<close>

lemma courses_distinct [simp]: "distinct courses"
  by (simp add: courses_def)

lemma course_name_in_courses [simp]: "course_name c \<in> set courses"
  by (cases c) (simp_all add: courses_def)

lemma sections_data:
  "s \<in> set (sections items) \<Longrightarrow> data s = filter (\<lambda>x. course_name (course x) = title s) items"
  by (auto simp: sections_def)

text \<open>
  The sections are titled by the three courses, in the fixed order, whether or not a
  course has an item.
\<close>

lemma sections_titles:
  "map title (sections items) = [''Starters'', ''Mains'', ''Desserts'']"
  by (simp add: sections_def courses_def)

text \<open>
  C9: the sections partition the list: their sizes add up to the length of the list,
  and every item lies in exactly one section.
\<close>

theorem sections_partition:
  "(\<Sum>s\<leftarrow>sections items. length (data s)) = length items
   \<and> (\<forall>x\<in>set items. length (filter (\<lambda>s. x \<in> set (data s)) (sections items)) = 1)"
proof
  have "(\<Sum>s\<leftarrow>sections items. length (data s))
      = (\<Sum>c\<leftarrow>courses. length (filter (\<lambda>x. course_name (course x) = c) items))"
    by (simp add: sections_def comp_def)
  also have "\<dots> = length items"
    by (rule sum_length_filter_keys) auto
  finally show "(\<Sum>s\<leftarrow>sections items. length (data s)) = length items" .
  show "\<forall>x\<in>set items. length (filter (\<lambda>s. x \<in> set (data s)) (sections items)) = 1"
  proof
    fix x assume x: "x \<in> set items"
    have "length (filter (\<lambda>s. x \<in> set (data s)) (sections items))
        = length (filter (\<lambda>c. x \<in> set (filter (\<lambda>y. course_name (course y) = c) items)) courses)"
      by (simp add: sections_def comp_def)
    also have "\<dots> = 1"
      using filter_keys_unique_part [of courses "\<lambda>y. course_name (course y)" x items] x by simp
    finally show "length (filter (\<lambda>s. x \<in> set (data s)) (sections items)) = 1" .
  qed
qed

theorem sections_partition_witness:
  "(\<Sum>s\<leftarrow>sections [item_a, item_b, item_c]. length (data s)) = length [item_a, item_b, item_c]
   \<and> length (filter (\<lambda>s. item_a \<in> set (data s)) (sections [item_a, item_b, item_c])) = 1
   \<and> length (filter (\<lambda>s. item_b \<in> set (data s)) (sections [item_a, item_b, item_c])) = 1
   \<and> length (filter (\<lambda>s. item_c \<in> set (data s)) (sections [item_a, item_b, item_c])) = 1"
  using sections_partition [of "[item_a, item_b, item_c]"] by simp

lemma sections_course:
  "\<exists>s\<in>set (sections items). data s = filter (\<lambda>x. course x = c) items"
proof
  let ?s = "\<lparr>title = course_name c, data = filter (\<lambda>x. course_name (course x) = course_name c) items\<rparr>"
  show "?s \<in> set (sections items)"
    unfolding sections_def set_map by (rule imageI) (rule course_name_in_courses)
  show "data ?s = filter (\<lambda>x. course x = c) items" by simp
qed

text \<open>
  With whole-number prices whose sum stays within \<open>2 ^ 53\<close>, the \<open>reduce\<close> sums
  exactly.
\<close>

lemma foldl_price_exact:
  assumes "map (\<lambda>x. js_value (price x)) xs = map (\<lambda>k. Some (of_nat k)) ks"
    and "js_value acc = Some (of_nat A)" and "A + sum_list ks \<le> 2 ^ 53"
  shows "js_value (foldl (\<lambda>sum item. js_add sum (price item)) acc xs) = Some (of_nat (A + sum_list ks))"
  using assms
proof (induction xs arbitrary: ks acc A)
  case Nil
  then show ?case by simp
next
  case (Cons x xs)
  obtain k ks' where ks: "ks = k # ks'" and px: "js_value (price x) = Some (of_nat k)"
    and rest: "map (\<lambda>x. js_value (price x)) xs = map (\<lambda>k. Some (of_nat k)) ks'"
    using Cons.prems(1) by (cases ks) auto
  have "js_value (js_add acc (price x)) = Some (of_int (int A + int k))"
    using Cons.prems(2,3) px ks by (intro js_add_int_exact) simp_all
  then have a: "js_value (js_add acc (price x)) = Some (of_nat (A + k))" by simp
  have "js_value (foldl (\<lambda>sum item. js_add sum (price item)) (js_add acc (price x)) xs)
      = Some (of_nat (A + k + sum_list ks'))"
    using Cons.prems(3) ks by (intro Cons.IH [OF rest a]) simp
  then show ?case using ks by (simp add: add.assoc)
qed

lemma price_total_exact:
  assumes "map (\<lambda>x. js_value (price x)) xs = map (\<lambda>k. Some (of_nat k)) ks" and "sum_list ks \<le> 2 ^ 53"
  shows "js_value (price_total xs) = Some (of_nat (sum_list ks))"
  using foldl_price_exact [OF assms(1), of js_zero 0] assms(2)
  by (simp add: price_total_def js_zero_def dval_def)

lemma averagePrice_Num:
  assumes "its = filter (\<lambda>i. course_name (course i) = c) items" and "its \<noteq> []"
    and "js_div (price_total its) (js_of_int (int (length its))) = Num m e"
  shows "averagePrice items c = toFixed (Num m e) 2"
proof -
  have "length its \<noteq> 0" using assms(2) by simp
  with assms(3) show ?thesis by (simp only: averagePrice_def assms(1) [symmetric] Let_def not_False_eq_True if_True)
qed

text \<open>
  For whole-number prices the average is the exact mean rounded half up to cents,
  unless the count of the course is a multiple of 40 (\<open>mean_to_cents\<close>).
\<close>

lemma averagePrice_whole_cents:
  assumes its: "its = filter (\<lambda>i. course_name (course i) = c) items"
    and pk: "map (\<lambda>x. js_value (price x)) its = map (\<lambda>k. Some (of_nat k)) ks"
    and ne: "ks \<noteq> []" and S: "sum_list ks \<le> 2 ^ 44" and len: "length ks \<le> 2 ^ 53"
    and n40: "\<not> 40 dvd length ks"
  shows "averagePrice items c =
    (let n = nat \<lfloor>(of_nat (sum_list ks) / of_nat (length ks) :: rat) * 100 + 1 / 2\<rfloor>
     in insert_point 2 (if n = 0 then ''0'' else show_nat n))"
proof -
  have nlen: "length its = length ks" using arg_cong [OF pk, of length] by simp
  have T: "js_value (price_total its) = Some (of_nat (sum_list ks))"
    using S by (intro price_total_exact [OF pk]) simp
  obtain m t where d: "js_div (price_total its) (js_of_int (int (length its))) = Num m t"
      and m0: "0 \<le> m" and big: "dval m t < 10 ^ 21"
      and fl: "\<lfloor>dval m t * 100 + 1 / 2\<rfloor> = \<lfloor>(of_nat (sum_list ks) / of_nat (length ks) :: rat) * 100 + 1 / 2\<rfloor>"
  proof -
    have "0 < length its" "length its \<le> 2 ^ 53" "\<not> 40 dvd length its"
      using ne len n40 nlen by simp_all
    from mean_to_cents [OF T this(1,2) S this(3)] show ?thesis using that unfolding nlen by blast
  qed
  have code: "averagePrice items c = toFixed (Num m t) 2"
    using its ne nlen d by (intro averagePrice_Num) auto
  have "\<not> at_least_1e21 (nat \<bar>m\<bar>) t" using big m0 by (simp add: at_least_1e21_iff abs_dval [symmetric])
  then have tf: "toFixed (Num m t) 2 = insert_point 2 (if fixed_scaled (nat m) t 2 = 0 then ''0''
                 else show_nat (fixed_scaled (nat m) t 2))"
    using m0 by (simp add: Let_def)
  have "int (fixed_scaled (nat m) t 2) = \<lfloor>dval m t * 100 + 1 / 2\<rfloor>"
    using fixed_scaled_floor [of "nat m" t 2] m0 by simp
  then have "fixed_scaled (nat m) t 2 = nat \<lfloor>(of_nat (sum_list ks) / of_nat (length ks) :: rat) * 100 + 1 / 2\<rfloor>"
    using fl by simp
  then show ?thesis using code tf by (simp add: Let_def)
qed

text \<open>
  C10: when the course has items and the mean the code computes (the \<open>reduce\<close> sum
  divided by the count, in JavaScript numbers) is a finite \<open>x\<close> below \<open>10 ^ 21\<close>, the
  average shown is \<open>x\<close> with exactly two decimals: an optional minus sign (present
  exactly when \<open>x\<close> is negative), digits, a point and two digits, which read as an
  integer are \<open>|x| * 100\<close> rounded to nearest with halves up.
\<close>

theorem averagePrice_digits:
  assumes "its = filter (\<lambda>i. course_name (course i) = c) items" and "its \<noteq> []"
    and "js_div (price_total its) (js_of_int (int (length its))) = Num m e"
    and "\<bar>dval m e\<bar> < 10 ^ 21"
  shows "is_fixed 2 (averagePrice items c)
    \<and> (take 1 (averagePrice items c) = ''-'') = (m < 0)
    \<and> int (digits_value (filter is_dec_digit (averagePrice items c))) = \<lfloor>\<bar>dval m e\<bar> * 100 + 1 / 2\<rfloor>"
proof -
  have "averagePrice items c = toFixed (Num m e) 2"
    using assms(1-3) by (rule averagePrice_Num)
  then show ?thesis using toFixed_spec [of 2 m e] assms(4) by simp
qed

theorem averagePrice_digits_witness:
  "[item_a] = filter (\<lambda>i. course_name (course i) = ''Starters'') [item_a] \<and> [item_a] \<noteq> []
   \<and> js_div (price_total [item_a]) (js_of_int (int (length [item_a]))) = Num 7036874417766400 (-47)
   \<and> \<bar>dval 7036874417766400 (-47)\<bar> < 10 ^ 21
   \<and> is_fixed 2 (averagePrice [item_a] ''Starters'')
   \<and> (take 1 (averagePrice [item_a] ''Starters'') = ''-'') = ((7036874417766400::int) < 0)
   \<and> int (digits_value (filter is_dec_digit (averagePrice [item_a] ''Starters'')))
       = \<lfloor>\<bar>dval 7036874417766400 (-47)\<bar> * 100 + 1 / 2\<rfloor>"
  using averagePrice_digits [of "[item_a]" "''Starters''" "[item_a]" 7036874417766400 "-47"]
  by (simp add: item_a_def price_total_def js_eval)

text \<open>
  C12: two items of the same course appear in their section in the order they have in
  the list (the section is a filter, which keeps order).
\<close>

theorem sections_keep_order:
  assumes "items = as @ a # bs @ b # cs" and "course a = course b"
  shows "\<exists>s\<in>set (sections items). \<exists>us vs ws. data s = us @ a # vs @ b # ws"
proof -
  obtain s where s: "s \<in> set (sections items)" and d: "data s = filter (\<lambda>x. course x = course a) items"
    using sections_course by blast
  have "\<exists>us vs ws. filter (\<lambda>x. course x = course a) items = us @ a # vs @ b # ws"
    unfolding assms(1) by (rule filter_keeps_order) (simp_all add: assms(2))
  then obtain us vs ws where "data s = us @ a # vs @ b # ws" using d by auto
  with s show ?thesis by blast
qed

theorem sections_keep_order_witness:
  "[item_a, item_b, item_c] = [] @ item_a # [item_b] @ item_c # []
   \<and> course item_a = course item_c
   \<and> (\<exists>s\<in>set (sections [item_a, item_b, item_c]). \<exists>us vs ws. data s = us @ item_a # vs @ item_c # ws)"
  using sections_keep_order [of "[item_a, item_b, item_c]" "[]" item_a "[item_b]" item_c "[]"]
  by (simp add: item_a_def item_c_def)

text \<open>
  C13: a course with no item shows the average \<open>0.00\<close>, without a division by zero.
\<close>

theorem averagePrice_no_items:
  "filter (\<lambda>i. course_name (course i) = c) items = [] \<Longrightarrow> averagePrice items c = ''0.00''"
  by (simp add: averagePrice_def)

theorem averagePrice_no_items_witness:
  "filter (\<lambda>i. course_name (course i) = ''Desserts'') [item_a, item_b] = []
   \<and> averagePrice [item_a, item_b] ''Desserts'' = ''0.00''"
  using averagePrice_no_items [of "''Desserts''" "[item_a, item_b]"] by (simp add: item_a_def item_b_def)

lemma foldl_js_add_NaN:
  "NaN \<in> f ` set xs \<Longrightarrow> foldl (\<lambda>s x. js_add s (f x)) a xs = NaN"
proof (induction xs arbitrary: a)
  case Nil
  then show ?case by simp
next
  case (Cons x xs)
  show ?case
  proof (cases "f x = NaN")
    case True
    have "foldl (\<lambda>s x. js_add s (f x)) NaN xs = NaN" for xs
      by (induction xs) simp_all
    with True show ?thesis by simp
  next
    case False
    with Cons show ?thesis by simp
  qed
qed

text \<open>
  C14: one item whose price is \<open>NaN\<close> (the chef typed a price with no leading
  number) makes the average of its course print as \<open>NaN\<close>: \<open>NaN\<close> absorbs the sum.
\<close>

theorem averagePrice_NaN:
  assumes "x \<in> set items" and "course_name (course x) = c" and "price x = NaN"
  shows "averagePrice items c = ''NaN''"
proof -
  let ?items = "filter (\<lambda>i. course_name (course i) = c) items"
  have "x \<in> set ?items" using assms by simp
  then have "price_total ?items = NaN"
    unfolding price_total_def using assms(3) by (intro foldl_js_add_NaN) force
  moreover have "length ?items \<noteq> 0" using length_pos_if_in_set [OF \<open>x \<in> set ?items\<close>] by simp
  ultimately show ?thesis by (simp add: averagePrice_def Let_def)
qed

theorem averagePrice_NaN_witness:
  "item_c \<in> set [item_a, item_b, item_c] \<and> course_name (course item_c) = ''Starters''
   \<and> price item_c = NaN \<and> averagePrice [item_a, item_b, item_c] ''Starters'' = ''NaN''"
  using averagePrice_NaN [of item_c "[item_a, item_b, item_c]" "''Starters''"]
  by (simp add: item_c_def js_eval)

text \<open>
  The home screen shows every item of the list exactly once: the keys of all its rows
  are, as a multiset, the ids of the list.
\<close>

lemma home_view_keys_mset:
  "mset (concat (map snd (home_view items))) = mset (map item_id items)"
proof -
  have "concat (map snd (home_view items))
      = map item_id (concat (map (\<lambda>c. filter (\<lambda>x. course_name (course x) = c) items) courses))"
    by (simp add: home_view_def sections_def comp_def map_concat)
  moreover have "mset (concat (map (\<lambda>c. filter (\<lambda>x. course_name (course x) = c) items) courses))
      = mset items"
    by (rule mset_concat_filter_keys) auto
  ultimately show ?thesis by (simp only: mset_map)
qed


lemma price_total_is_double:
  "price_total xs = Num m e \<Longrightarrow> is_double (Num m e)"
proof (induction xs arbitrary: m e rule: rev_induct)
  case Nil
  then show ?case by (simp add: price_total_def js_zero_def)
next
  case (snoc x xs)
  then show ?case by (simp only: price_total_def foldl_append foldl.simps) (rule js_add_is_double)
qed

lemma price_total_whole:
  assumes "\<forall>x\<in>set xs. js_value (price x) = Some (of_nat (w x))" and "sum_list (map w xs) \<le> 2 ^ 53"
  shows "js_value (price_total xs) = Some (of_nat (sum_list (map w xs)))"
proof -
  have "map (\<lambda>x. js_value (price x)) xs = map (\<lambda>k. Some (of_nat k)) (map w xs)"
    using assms(1) by simp
  then show ?thesis using price_total_exact assms(2) by blast
qed

text \<open>
  C31: with whole-number prices whose sum stays within \<open>2 ^ 53\<close>, the average shown for
  a course does not depend on the order of the dishes: every partial sum of the
  \<open>reduce\<close> is exact, and the total is the same double whatever the order.
\<close>

theorem averagePrice_order_independent:
  assumes perm: "mset items' = mset items"
    and whole: "\<forall>x\<in>set items. js_value (price x) = Some (of_nat (w x))"
    and bound: "sum_list (map w items) \<le> 2 ^ 53"
  shows "averagePrice items' c = averagePrice items c"
proof -
  define P :: "menu_item \<Rightarrow> bool" where "P = (\<lambda>i. course_name (course i) = c)"
  have m: "mset (filter P items') = mset (filter P items)" using perm by simp
  have set': "set items' = set items" using perm by (metis set_mset_mset)
  have sums: "sum_list (map w (filter P items')) = sum_list (map w (filter P items))"
    using m by (metis mset_map sum_mset_sum_list)
  have b: "sum_list (map w (filter P items)) \<le> 2 ^ 53"
    using bound by (metis order.trans sum_list_filter_le zero_le)
  have t: "js_value (price_total (filter P items)) = Some (of_nat (sum_list (map w (filter P items))))"
    using whole b by (intro price_total_whole) auto
  have "\<forall>x\<in>set (filter P items'). js_value (price x) = Some (of_nat (w x))" using whole set' by auto
  moreover have "sum_list (map w (filter P items')) \<le> 2 ^ 53" using b sums by simp
  ultimately have "js_value (price_total (filter P items')) = Some (of_nat (sum_list (map w (filter P items'))))"
    by (rule price_total_whole)
  then have t': "js_value (price_total (filter P items')) = Some (of_nat (sum_list (map w (filter P items))))"
    using sums by simp
  obtain m1 e1 where n1: "price_total (filter P items) = Num m1 e1" using t by (cases "price_total (filter P items)") auto
  obtain m2 e2 where n2: "price_total (filter P items') = Num m2 e2" using t' by (cases "price_total (filter P items')") auto
  have "m2 = m1 \<and> e2 = e1"
    using double_unique [OF price_total_is_double [OF n2] price_total_is_double [OF n1]] t t' n1 n2 by simp
  then have "price_total (filter P items') = price_total (filter P items)" using n1 n2 by simp
  moreover have "length (filter P items') = length (filter P items)" using m by (metis size_mset)
  ultimately show ?thesis by (simp only: averagePrice_def P_def [symmetric] Let_def)
qed

theorem averagePrice_order_independent_witness:
  "mset [item_b, item_a] = mset [item_a, item_b]
   \<and> js_value (price item_a) = Some (of_nat 50) \<and> js_value (price item_b) = Some (of_nat 180)
   \<and> sum_list (map (\<lambda>x. if x = item_a then 50 else 180) [item_a, item_b]) \<le> (2::nat) ^ 53
   \<and> averagePrice [item_b, item_a] ''Starters'' = averagePrice [item_a, item_b] ''Starters''"
proof -
  have ab: "item_a \<noteq> item_b" by (simp add: item_a_def item_b_def)
  have w: "\<forall>x\<in>set [item_a, item_b]. js_value (price x) = Some (of_nat (if x = item_a then 50 else 180))"
    using ab by (simp add: item_a_def item_b_def js_eval)
  have p: "mset [item_b, item_a] = mset [item_a, item_b]" by simp
  have s: "sum_list (map (\<lambda>x. if x = item_a then 50 else 180) [item_a, item_b]) \<le> (2::nat) ^ 53"
    using ab by simp
  show ?thesis using averagePrice_order_independent [OF p w s, of "''Starters''"] w p s ab by simp
qed

text \<open>
  C39: with whole-number prices (sum at most \<open>2 ^ 44\<close>, count no multiple of 40), the
  average shown for a course with dishes is a two-decimal number of cents between a
  hundred times its cheapest and a hundred times its dearest price.
\<close>

theorem averagePrice_within_prices:
  assumes pk: "map (\<lambda>x. js_value (price x)) (filter (\<lambda>i. course_name (course i) = c) items)
      = map (\<lambda>k. Some (of_nat k)) ks"
    and ne: "ks \<noteq> []" and S: "sum_list ks \<le> 2 ^ 44" and len: "length ks \<le> 2 ^ 53"
    and n40: "\<not> 40 dvd length ks"
  shows "\<exists>cents. averagePrice items c = insert_point 2 (if cents = 0 then ''0'' else show_nat cents)
    \<and> 100 * Min (set ks) \<le> cents \<and> cents \<le> 100 * Max (set ks)"
proof -
  define q :: rat where "q = of_nat (sum_list ks) / of_nat (length ks)"
  have code: "averagePrice items c = (let n = nat \<lfloor>q * 100 + 1 / 2\<rfloor> in
      insert_point 2 (if n = 0 then ''0'' else show_nat n))"
    unfolding q_def by (rule averagePrice_whole_cents [OF refl pk ne S len n40])
  have n0: "(0 :: rat) < of_nat (length ks)" using ne by simp
  have b: "of_nat (length ks * Min (set ks)) \<le> (of_nat (sum_list ks) :: rat)"
      "(of_nat (sum_list ks) :: rat) \<le> of_nat (length ks * Max (set ks))"
    using sum_list_Min_Max [OF ne] by (simp_all only: of_nat_le_iff)
  have "of_nat (Min (set ks)) \<le> q" "q \<le> of_nat (Max (set ks))"
    using b n0 by (simp_all add: q_def le_divide_eq divide_le_eq mult.commute)
  then have "\<lfloor>of_nat (100 * Min (set ks)) + 1 / 2 :: rat\<rfloor> \<le> \<lfloor>q * 100 + 1 / 2\<rfloor>"
      "\<lfloor>q * 100 + 1 / 2\<rfloor> \<le> \<lfloor>of_nat (100 * Max (set ks)) + 1 / 2 :: rat\<rfloor>"
    by (intro floor_mono; simp; linarith)+
  then have "100 * Min (set ks) \<le> nat \<lfloor>q * 100 + 1 / 2\<rfloor>" "nat \<lfloor>q * 100 + 1 / 2\<rfloor> \<le> 100 * Max (set ks)"
    by (simp only: floor_nat_half; linarith)+
  with code show ?thesis unfolding Let_def by (intro exI [of _ "nat \<lfloor>q * 100 + 1 / 2\<rfloor>"]) simp
qed

theorem averagePrice_within_prices_witness:
  "map (\<lambda>x. js_value (price x)) (filter (\<lambda>i. course_name (course i) = ''Starters'') [item_a, item_b])
      = map (\<lambda>k. Some (of_nat k)) [50] \<and> [50::nat] \<noteq> [] \<and> sum_list [50::nat] \<le> 2 ^ 44
   \<and> length [50::nat] \<le> 2 ^ 53 \<and> \<not> 40 dvd length [50::nat]
   \<and> (\<exists>cents. averagePrice [item_a, item_b] ''Starters''
          = insert_point 2 (if cents = 0 then ''0'' else show_nat cents)
        \<and> 100 * Min (set [50::nat]) \<le> cents \<and> cents \<le> 100 * Max (set [50::nat]))"
proof -
  have pk: "map (\<lambda>x. js_value (price x)) (filter (\<lambda>i. course_name (course i) = ''Starters'') [item_a, item_b])
      = map (\<lambda>k. Some (of_nat k)) [50::nat]"
    by (simp add: item_a_def item_b_def js_eval)
  show ?thesis using averagePrice_within_prices [OF pk] pk by simp
qed

lemma averagePrice_large_form:
  assumes its: "its = filter (\<lambda>i. course_name (course i) = c) items" and ne: "its \<noteq> []"
    and d: "js_div (price_total its) (js_of_int (int (length its))) = Num m e"
    and big: "at_least_1e21 (nat \<bar>m\<bar>) e"
  shows "\<exists>s k n. averagePrice items c = (if m < 0 then ''-'' else '''') @
        (if k = 1 then show_nat s @ ''e+'' @ show_nat (n - 1)
         else [hd (show_nat s)] @ ''.'' @ tl (show_nat s) @ ''e+'' @ show_nat (n - 1))
      \<and> 1 \<le> k \<and> k \<le> length (show_nat (nat \<bar>m\<bar> * 2 ^ nat e))
      \<and> round_trip_candidate (Num \<bar>m\<bar> e) (nat \<bar>m\<bar> * 2 ^ nat e)
           (length (show_nat (nat \<bar>m\<bar> * 2 ^ nat e))) k = Some (s, n)"
proof -
  define a where "a = nat \<bar>m\<bar>"
  define X where "X = a * 2 ^ nat e"
  define D where "D = length (show_nat X)"
  have dm: "is_double (Num m e)" using d by (rule js_div_is_double)
  have e0: "0 \<le> e"
  proof (rule ccontr)
    assume "\<not> 0 \<le> e"
    then have "10 ^ 21 * 2 ^ nat (- e) \<le> a" using big by (simp add: a_def at_least_1e21_def)
    then have "10 ^ 21 \<le> a" by (rule order.trans [rotated]) simp
    moreover have "a < 2 ^ 53" using dm by (auto simp: a_def nat_less_iff)
    ultimately show False by simp
  qed
  have da: "is_double (Num (int a) e)" using dm by (simp add: a_def)
  have "round_trip_candidate (Num (int a) e) X D D \<noteq> None"
    unfolding X_def using round_double_own_digits [OF da e0] by (intro round_trip_candidate_own)
  moreover have "1 \<le> D" using show_nat_digits [of X] by (simp add: D_def Suc_le_eq)
  ultimately obtain s k n where f: "shortest_digits D (Num (int a) e) X D 1 = (s, k, n)" "1 \<le> k" "k \<le> D"
      "round_trip_candidate (Num (int a) e) X D k = Some (s, n)"
    using shortest_digits_found [of 1 D D "Num (int a) e" X] by auto
  have "averagePrice items c = toFixed (Num m e) 2"
    using its ne d by (rule averagePrice_Num)
  then have "averagePrice items c = (if m < 0 then ''-'' else '''') @
        (if k = 1 then show_nat s @ ''e+'' @ show_nat (n - 1)
         else [hd (show_nat s)] @ ''.'' @ tl (show_nat s) @ ''e+'' @ show_nat (n - 1))"
    using big f(1) by (simp add: a_def [symmetric] X_def [symmetric] D_def [symmetric] large_to_string_def Let_def)
  then show ?thesis using f(2-4)
    by (intro exI [of _ s] exI [of _ k] exI [of _ n]) (simp add: a_def X_def D_def)
qed

text \<open>
  C40: when the mean of a course is at least \<open>10 ^ 21\<close>, the average is printed by
  \<open>Number::toString\<close>, and its search over digit counts, given as much fuel as the
  integer has digits, ends at a count from \<open>1\<close> to that number of digits whose digits
  round back to the mean, never at the fuel-exhausted default.
\<close>

theorem averagePrice_large_search_ends:
  assumes its: "its = filter (\<lambda>i. course_name (course i) = c) items" and ne: "its \<noteq> []"
    and d: "js_div (price_total its) (js_of_int (int (length its))) = Num m e"
    and big: "at_least_1e21 (nat \<bar>m\<bar>) e"
  shows "\<exists>s k n. averagePrice items c = (if m < 0 then ''-'' else '''') @
        (if k = 1 then show_nat s @ ''e+'' @ show_nat (n - 1)
         else [hd (show_nat s)] @ ''.'' @ tl (show_nat s) @ ''e+'' @ show_nat (n - 1))
      \<and> 1 \<le> k \<and> k \<le> length (show_nat (nat \<bar>m\<bar> * 2 ^ nat e))
      \<and> round_trip_candidate (Num \<bar>m\<bar> e) (nat \<bar>m\<bar> * 2 ^ nat e)
           (length (show_nat (nat \<bar>m\<bar> * 2 ^ nat e))) k = Some (s, n)"
  using assms by (rule averagePrice_large_form)

theorem averagePrice_large_search_ends_witness:
  "[item_w] = filter (\<lambda>i. course_name (course i) = ''Mains'') [item_w] \<and> [item_w] \<noteq> []
   \<and> js_div (price_total [item_w]) (js_of_int (int (length [item_w]))) = Num 7629394531250000 17
   \<and> at_least_1e21 (nat \<bar>7629394531250000\<bar>) 17
   \<and> (\<exists>s k n. averagePrice [item_w] ''Mains'' = (if (7629394531250000::int) < 0 then ''-'' else '''') @
        (if k = 1 then show_nat s @ ''e+'' @ show_nat (n - 1)
         else [hd (show_nat s)] @ ''.'' @ tl (show_nat s) @ ''e+'' @ show_nat (n - 1))
      \<and> 1 \<le> k \<and> k \<le> length (show_nat (nat \<bar>7629394531250000\<bar> * 2 ^ nat 17))
      \<and> round_trip_candidate (Num \<bar>7629394531250000\<bar> 17) (nat \<bar>7629394531250000\<bar> * 2 ^ nat 17)
           (length (show_nat (nat \<bar>7629394531250000\<bar> * 2 ^ nat 17))) k = Some (s, n))"
proof -
  have f: "[item_w] = filter (\<lambda>i. course_name (course i) = ''Mains'') [item_w]"
    by (simp add: item_w_def)
  have d: "js_div (price_total [item_w]) (js_of_int (int (length [item_w]))) = Num 7629394531250000 17"
    by (simp add: item_w_def price_total_def js_eval)
  have b: "at_least_1e21 (nat \<bar>7629394531250000\<bar>) 17" by (simp add: at_least_1e21_def)
  have ne: "[item_w] \<noteq> []" by simp
  show ?thesis using averagePrice_large_search_ends [OF f ne d b] f ne d b by blast
qed

end
