(* ===== verification/FilterScreen.thy ===== *)
theory FilterScreen
  imports HomeScreen
begin

text \<open>
  The filter screen, \<open>src/screens/FilterScreen.tsx\<close>. Its own state is one
  \<open>useState<Course | null>\<close> hook, the selected course, \<open>null\<close> at first; the course
  picker sets it (its placeholder item \<open>Select Course\<close> has the value \<open>null\<close>). It
  reads the shared list and shows one of three things: a prompt while no course is
  selected, a message when the selected course has no dish, or the list of the dishes of
  that course, keyed by id.
\<close>

record filter_state =
  selectedCourse :: "course option"

definition filter_init :: filter_state where
  "filter_init = \<lparr>selectedCourse = None\<rparr>"

text \<open>
  \<open>filteredItems\<close>: \<open>selectedCourse === null ? [] : menuItems.filter(item =>
  item.course === selectedCourse)\<close>.
\<close>

definition filteredItems :: "course option \<Rightarrow> menu_item list \<Rightarrow> menu_item list" where
  "filteredItems sel menuItems =
     (case sel of None \<Rightarrow> [] | Some c \<Rightarrow> filter (\<lambda>item. course item = c) menuItems)"

text \<open>The picker's \<open>onValueChange\<close>: \<open>setSelectedCourse(value)\<close>.\<close>

definition filter_pick :: "course option \<Rightarrow> filter_state \<Rightarrow> filter_state" where
  "filter_pick v st = st\<lparr>selectedCourse := v\<rparr>"

text \<open>
  What the screen renders below the picker: the text \<open>Please select a course above\<close>,
  the text \<open>No dishes found for {selectedCourse}\<close>, or a \<open>FlatList\<close> of the
  filtered items keyed by \<open>item.id\<close>.
\<close>

datatype filter_view = Info_Text js_string | Dish_List "js_string list"

definition filter_render :: "filter_state \<Rightarrow> menu_item list \<Rightarrow> filter_view" where
  "filter_render st menuItems =
     (let items = filteredItems (selectedCourse st) menuItems in
      case selectedCourse st of
        None \<Rightarrow> Info_Text ''Please select a course above''
      | Some c \<Rightarrow> if length items = 0 then Info_Text (''No dishes found for '' @ course_name c)
                  else Dish_List (map item_id items))"

subsection \<open>Properties\<close>

lemma filteredItems_simps [simp]:
  "filteredItems None items = []"
  "filteredItems (Some c) items = filter (\<lambda>item. course item = c) items"
  by (simp_all add: filteredItems_def)

text \<open>
  C16: for each course the filter screen lists exactly the dishes the home screen shows
  in that course's section, in the same order: the two screens agree.
\<close>

theorem filteredItems_agree_sections:
  "map (\<lambda>c. filteredItems (Some c) items) [Starters, Mains, Desserts] = map data (sections items)"
  by (simp add: sections_def courses_def)

text \<open>
  The filter screen never shows a dish of another course, and shows every dish of the
  selected one; with no selection it shows none.
\<close>

lemma filteredItems_exact:
  "x \<in> set (filteredItems sel items) \<longleftrightarrow> x \<in> set items \<and> sel = Some (course x)"
  by (cases sel) auto

text \<open>
  C18: the screen shows the message \<open>No dishes found for c\<close> exactly when the course
  \<open>c\<close> is selected and no dish of the list has that course.
\<close>

theorem filter_render_no_dishes:
  "filter_render st items = Info_Text (''No dishes found for '' @ course_name c) \<longleftrightarrow>
     selectedCourse st = Some c \<and> (\<forall>x\<in>set items. course x \<noteq> c)"
  by (cases "selectedCourse st")
     (auto simp: filter_render_def filter_empty_conv course_name_def split: course.splits)

theorem filter_render_no_dishes_witness:
  "selectedCourse \<lparr>selectedCourse = Some Desserts\<rparr> = Some Desserts
   \<and> course item_a \<noteq> Desserts \<and> course item_b \<noteq> Desserts
   \<and> filter_render \<lparr>selectedCourse = Some Desserts\<rparr> [item_a, item_b]
       = Info_Text (''No dishes found for '' @ course_name Desserts)"
  using filter_render_no_dishes [of "\<lparr>selectedCourse = Some Desserts\<rparr>" "[item_a, item_b]" Desserts]
  by (simp add: item_a_def item_b_def)

text \<open>
  C19: picking the placeholder again (the value \<open>null\<close>) brings the screen back to its
  prompt, whatever was selected before; picking a course with dishes lists their ids in
  the order of the list.
\<close>

theorem filter_pick_render:
  "filter_render (filter_pick None st) items = Info_Text ''Please select a course above''
   \<and> (filter (\<lambda>x. course x = c) items \<noteq> [] \<longrightarrow>
        filter_render (filter_pick (Some c) st) items
          = Dish_List (map item_id (filter (\<lambda>x. course x = c) items)))"
  by (simp add: filter_render_def filter_pick_def)

theorem filter_pick_render_witness:
  "filter_render (filter_pick None filter_init) [item_a] = Info_Text ''Please select a course above''
   \<and> filter (\<lambda>x. course x = Starters) [item_a, item_b] \<noteq> []
   \<and> filter_render (filter_pick (Some Starters) filter_init) [item_a, item_b] = Dish_List [''a'']"
  using filter_pick_render [of filter_init "[item_a]" Starters]
    filter_pick_render [of filter_init "[item_a, item_b]" Starters]
  by (simp add: item_a_def item_b_def)

end
