(* ===== verification/App.thy ===== *)
theory App
  imports ChefScreen FilterScreen
begin

text \<open>
  The application around the screens. \<open>App.tsx\<close> is not among the sources; after the
  specification (sections 2, 5 and 9) it owns the list in one \<open>useState\<close> hook, empty at
  first, and hands it to the three screens of a native stack navigator, the setter to
  the chef screen only. The home screen's two buttons (\<open>src/screens/HomeScreen.tsx\<close>,
  lines 44 to 56) push the filter or the chef screen; the header's back button pops it,
  which unmounts it, so that its local state starts afresh the next time. Events are
  handled one at a time, each to completion (specification section 5), so the app is a
  step relation on its state. A fresh id from \<open>uuidv4()\<close> is modelled as a premise of
  the Add Dish step: the id is not in the list.
\<close>

datatype route = Home | Filter | Chef

datatype home_button = Filter_Courses | Chef_Admin

text \<open>\<open>onPress={() => navigation.navigate('Filter')}\<close> and \<open>navigate('Chef')\<close>.\<close>

definition home_press :: "home_button \<Rightarrow> route" where
  "home_press b = (case b of Filter_Courses \<Rightarrow> Filter | Chef_Admin \<Rightarrow> Chef)"

record app_state =
  menuItems :: "menu_item list"
  chef :: chef_ui
  filt :: filter_state
  screen :: route

definition app_init :: app_state where
  "app_init = \<lparr>menuItems = [], chef = chef_ui_init, filt = filter_init, screen = Home\<rparr>"

definition fresh_event :: "chef_event \<Rightarrow> menu_item list \<Rightarrow> bool" where
  "fresh_event e items = (case e of Press_Add u \<Rightarrow> u \<notin> set (item_ids items) | _ \<Rightarrow> True)"

inductive app_step :: "app_state \<Rightarrow> app_state \<Rightarrow> bool" where
  nav_push: "screen s = Home \<Longrightarrow> app_step s (s\<lparr>screen := home_press b\<rparr>)"
| nav_back: "screen s \<noteq> Home \<Longrightarrow> app_step s (s\<lparr>screen := Home, chef := chef_ui_init, filt := filter_init\<rparr>)"
| chef_step: "screen s = Chef \<Longrightarrow> fresh_event e (menuItems s) \<Longrightarrow>
    chef_ui_handle e (menuItems s) (chef s) = (a, items', ui') \<Longrightarrow>
    app_step s (s\<lparr>menuItems := items', chef := ui'\<rparr>)"
| filter_step: "screen s = Filter \<Longrightarrow> app_step s (s\<lparr>filt := filter_pick v (filt s)\<rparr>)"

inductive reachable :: "app_state \<Rightarrow> bool" where
  init: "reachable app_init"
| step: "reachable s \<Longrightarrow> app_step s s' \<Longrightarrow> reachable s'"

text \<open>
  The invariant of the shared list: distinct ids, and a name and a description in every
  item (the guard of \<open>addItem\<close>).
\<close>

definition app_inv :: "menu_item list \<Rightarrow> bool" where
  "app_inv items \<longleftrightarrow> ids_distinct items \<and> list_all (\<lambda>x. name x \<noteq> [] \<and> description x \<noteq> []) items"



subsection \<open>The invariant of the shared list\<close>

lemma app_inv_init [simp]: "app_inv []"
  by (simp add: app_inv_def ids_distinct_def)

lemma chef_handle_app_inv:
  assumes "chef_handle e items st = (a, items', st')" and "fresh_event e items" and "app_inv items"
  shows "app_inv items'"
proof (cases e)
  case (Press_Add u)
  show ?thesis
  proof (cases "addItem u items st")
    case (Inl al)
    with assms Press_Add show ?thesis by simp
  next
    case (Inr r)
    then obtain its st'' where r: "addItem u items st = Inr (its, st'')" by (cases r) auto
    with assms Press_Add have "items' = its" by simp
    with addItem_InrD [OF r] assms(2,3) Press_Add show ?thesis
      by (auto simp: app_inv_def fresh_event_def)
  qed
next
  case (Press_Remove i)
  with assms show ?thesis
    by (auto simp: app_inv_def removeItem_def list_all_iff ids_distinct_filter)
qed (use assms in simp_all)

lemma reachable_inv:
  "reachable s \<Longrightarrow> app_inv (menuItems s)"
proof (induction rule: reachable.induct)
  case init
  then show ?case by (simp add: app_init_def)
next
  case (step s s')
  from step.hyps(2) step.IH show ?case
  proof (cases rule: app_step.cases)
    case (chef_step e a items' ui')
    then obtain st' where "chef_handle e (menuItems s) (form (chef s)) = (a, items', st')"
      using chef_ui_handle_items by blast
    with chef_step step.IH show ?thesis using chef_handle_app_inv by simp
  qed auto
qed

text \<open>
  C23: in every state the app can reach, the ids of the shared list are distinct and
  every item has a name and a description.
\<close>

theorem reachable_app_inv:
  "reachable s \<Longrightarrow> app_inv (menuItems s)"
  by (rule reachable_inv)


subsection \<open>Adding a dish is always possible\<close>

lemma reachable_chef_step:
  assumes "reachable s" and "screen s = Chef" and "fresh_event e (menuItems s)"
  shows "reachable (s\<lparr>menuItems := fst (snd (chef_ui_handle e (menuItems s) (chef s))),
                      chef := snd (snd (chef_ui_handle e (menuItems s) (chef s)))\<rparr>)"
proof -
  obtain a items' ui' where h: "chef_ui_handle e (menuItems s) (chef s) = (a, items', ui')"
    by (cases "chef_ui_handle e (menuItems s) (chef s)") auto
  have "app_step s (s\<lparr>menuItems := items', chef := ui'\<rparr>)" using assms(2,3) h by (rule chef_step)
  with assms(1) h show ?thesis by (simp add: reachable.step)
qed

lemma reachable_chef_screen:
  assumes "reachable s"
  shows "\<exists>s'. reachable s' \<and> screen s' = Chef \<and> menuItems s' = menuItems s"
proof -
  obtain s0 where s0: "reachable s0" "screen s0 = Home" "menuItems s0 = menuItems s"
  proof (cases "screen s = Home")
    case True
    with assms show ?thesis using that by blast
  next
    case False
    then have "app_step s (s\<lparr>screen := Home, chef := chef_ui_init, filt := filter_init\<rparr>)"
      by (rule nav_back)
    with assms show ?thesis using that [of "s\<lparr>screen := Home, chef := chef_ui_init, filt := filter_init\<rparr>"]
      by (simp add: reachable.step)
  qed
  have "app_step s0 (s0\<lparr>screen := home_press Chef_Admin\<rparr>)" using s0(2) by (rule nav_push)
  with s0 show ?thesis by (intro exI [of _ "s0\<lparr>screen := home_press Chef_Admin\<rparr>"]) (simp add: reachable.step home_press_def)
qed

text \<open>
  C24: from every reachable state the chef can add any dish with a fresh id, a name, a
  description, a typed price and a course: some reachable state has the list with that
  dish appended.
\<close>

theorem add_always_possible:
  assumes "reachable s" and "n \<noteq> []" and "d \<noteq> []" and "p \<noteq> []"
    and "u \<notin> set (item_ids (menuItems s))"
  shows "\<exists>s'. reachable s' \<and> menuItems s' = menuItems s @
    [\<lparr>item_id = u, name = n, description = d, price = parseFloat p, course = c\<rparr>]"
proof -
  obtain s1 where s1: "reachable s1" "screen s1 = Chef" "menuItems s1 = menuItems s"
    using reachable_chef_screen [OF assms(1)] by blast
  let ?f = "\<lambda>e t. t\<lparr>menuItems := fst (snd (chef_ui_handle e (menuItems t) (chef t))),
                      chef := snd (snd (chef_ui_handle e (menuItems t) (chef t)))\<rparr>"
  let ?s2 = "?f (Pick_Course (Some c)) (?f (Change_Price p) (?f (Change_Desc d) (?f (Change_Name n) s1)))"
  have r2: "reachable ?s2"
    using s1 by (intro reachable_chef_step) (simp_all add: chef_ui_handle_def fresh_event_def)
  have form2: "form (chef ?s2) = \<lparr>chef_name = n, chef_desc = d, chef_price = p, chef_course = Some c\<rparr>"
    by (simp add: chef_ui_handle_def)
  have "reachable (?f (Press_Add u) ?s2)"
    using r2 s1 assms(5) by (intro reachable_chef_step) (simp_all add: chef_ui_handle_def fresh_event_def)
  moreover have "menuItems (?f (Press_Add u) ?s2) = menuItems s @
    [\<lparr>item_id = u, name = n, description = d, price = parseFloat p, course = c\<rparr>]"
    using form2 s1 assms(2-4) by (simp add: chef_ui_handle_def addItem_def js_truthy_str_def Let_def)
  ultimately show ?thesis by blast
qed


theorem add_always_possible_witness:
  "reachable app_init \<and> ''Soup'' \<noteq> [] \<and> ''Hot'' \<noteq> [] \<and> ''45'' \<noteq> []
   \<and> ''id-1'' \<notin> set (item_ids (menuItems app_init))
   \<and> (\<exists>s'. reachable s' \<and> menuItems s' = menuItems app_init @
        [\<lparr>item_id = ''id-1'', name = ''Soup'', description = ''Hot'', price = parseFloat ''45'', course = Starters\<rparr>])"
  using add_always_possible [OF reachable.init, of "''Soup''" "''Hot''" "''45''" "''id-1''" Starters] reachable.init
  by (simp add: app_init_def)



lemma reachable_chef_entry: "reachable (app_init\<lparr>screen := Chef\<rparr>)"
proof -
  have "app_step app_init (app_init\<lparr>screen := home_press Chef_Admin\<rparr>)"
    by (rule nav_push) (simp add: app_init_def)
  then show ?thesis using reachable.init by (simp add: home_press_def reachable.step)
qed

theorem reachable_app_inv_witness:
  "reachable (app_init\<lparr>screen := Chef\<rparr>) \<and> app_inv (menuItems (app_init\<lparr>screen := Chef\<rparr>))"
  using reachable_app_inv [OF reachable_chef_entry] reachable_chef_entry by simp

subsection \<open>The screens read what the chef screen writes\<close>

text \<open>
  C25: after a successful Add Dish for course \<open>c\<close>, the filter screen and the home
  section of \<open>c\<close> list what they listed before with the new dish at the end; every other
  course lists what it listed before.
\<close>

theorem addItem_extends_filter:
  assumes "addItem u items st = Inr (items', st')" and "chef_course st = Some c"
  shows "filteredItems (Some c') items' = filteredItems (Some c') items @ (if c' = c then [last items'] else [])"
  using addItem_InrD [OF assms(1)] assms(2) by auto

theorem addItem_extends_filter_witness:
  "addItem ''x'' [item_a] (form chef_filled) = Inr ([item_a, item_x], chef_init)
   \<and> chef_course (form chef_filled) = Some Starters
   \<and> filteredItems (Some Starters) [item_a, item_x] = [item_a, item_x]"
  using addItem_extends_filter [of "''x''" "[item_a]" "form chef_filled" "[item_a, item_x]" chef_init Starters Starters]
  by (simp add: addItem_def chef_filled_def item_x_def item_a_def chef_init_def)


text \<open>
  C35: a round trip through two screens. When the chef adds the first dish of a course
  with a price typed with two decimals (\<open>120.50\<close>, \<open>0.05\<close>; any amount up to
  \<open>2 ^ 44\<close> cents), the home screen shows exactly that text as the course's average:
  \<open>parseFloat\<close>, the \<open>reduce\<close>, the division by 1 and \<open>toFixed(2)\<close> give it back.
\<close>

theorem typed_price_shown_back:
  assumes n: "n \<le> 2 ^ 44" and add: "addItem u items st = Inr (items', st')"
    and p: "chef_price st = insert_point 2 (show_nat n)" and c: "chef_course st = Some c"
    and none: "filter (\<lambda>i. course i = c) items = []"
  shows "averagePrice items' (course_name c) = chef_price st"
proof -
  obtain it where items': "items' = items @ [it]" and pr: "price it = parseFloat (chef_price st)"
    and ci: "course it = c"
    using addItem_InrD [OF add] c by auto
  have pf: "price it = round_double (int n) 100 0" using pr p parseFloat_fixed [of 2 n] by simp
  have fin: "\<bar>of_int (int n) / of_int 100 * (2::rat) powi 0\<bar> < 2 powi 1000"
  proof -
    have "(of_nat n :: rat) \<le> 2 ^ 44" using n by (metis of_nat_le_iff of_nat_numeral of_nat_power)
    moreover have "(2::rat) ^ 44 < 2 powi 1000" by (simp add: power_int_def)
    ultimately show ?thesis by simp
  qed
  obtain m e where r: "round_double (int n) 100 0 = Num m e"
    using round_double_finite [OF _ fin] by auto
  have ce: "0 \<le> m \<and> \<bar>dval m e\<bar> < 10 ^ 21 \<and> fixed_scaled (nat \<bar>m\<bar>) e 2 = n"
    by (rule cents_of_rounded [OF n r])
  have dbl: "is_double (Num m e)" using round_double_is_double [of 100 "int n" 0] r by simp
  have its: "filter (\<lambda>i. course i = c) items' = [it]" using items' none ci by simp
  obtain m1 e1 where t: "price_total [it] = Num m1 e1" and t1: "dval m1 e1 = dval m e"
  proof -
    have "js_add js_zero (Num m e) = round_double (0 * 2 ^ nat (0 - min 0 e) + m * 2 ^ nat (e - min 0 e)) 1 (min 0 e)"
      and "of_int (0 * 2 ^ nat (0 - min 0 e) + m * 2 ^ nat (e - min 0 e)) / of_int 1 * 2 powi (min 0 e)
           = dval 0 0 + dval m e"
      using js_add_Num [of 0 0 m e] by (simp_all add: js_zero_def)
    then have "js_value (js_add js_zero (Num m e)) = Some (dval m e)"
      using round_double_of_double [OF dbl] by (simp add: dval_def)
    then show ?thesis using that pf r by (cases "js_add js_zero (Num m e)") (simp_all add: price_total_def)
  qed
  obtain m2 e2 where o: "js_of_int (int 1) = Num m2 e2" and m2: "m2 \<noteq> 0" and v2: "dval m2 e2 = of_nat 1"
    using js_of_int_nat [of 1] by auto
  obtain m3 e3 where d: "js_div (Num m1 e1) (Num m2 e2) = Num m3 e3" and d3: "dval m3 e3 = dval m e"
  proof -
    have jd: "js_div (Num m1 e1) (Num m2 e2) = round_double (m1 * sgn m2) \<bar>m2\<bar> (e1 - e2)"
      and jv: "of_int (m1 * sgn m2) / of_int \<bar>m2\<bar> * 2 powi (e1 - e2) = dval m1 e1 / dval m2 e2"
      using js_div_Num [OF m2, of m1 e1] by simp_all
    have jv': "of_int (m1 * sgn m2) / of_int \<bar>m2\<bar> * 2 powi (e1 - e2) = dval m e"
      using jv t1 v2 by simp
    have "js_value (round_double (m1 * sgn m2) \<bar>m2\<bar> (e1 - e2)) = Some (dval m e)"
      by (rule round_double_of_double [OF dbl _ jv']) (use m2 in simp)
    then have "js_value (js_div (Num m1 e1) (Num m2 e2)) = Some (dval m e)" by (simp only: jd)
    then show ?thesis using that by (cases "js_div (Num m1 e1) (Num m2 e2)") simp_all
  qed
  have "averagePrice items' (course_name c) = toFixed (Num m3 e3) 2"
    using its t o d by (simp add: averagePrice_def Let_def)
  also have "\<dots> = toFixed (Num m e) 2" using d3 ce by (intro toFixed_same_value) simp_all
  also have "\<dots> = insert_point 2 (show_nat n)"
    using ce not_at_least_1e21 [of m e] by (auto simp: Let_def show_nat_0)
  finally show ?thesis using p by simp
qed

theorem typed_price_shown_back_witness:
  "(12050::nat) \<le> 2 ^ 44
   \<and> addItem ''s'' [] (form \<lparr>form = \<lparr>chef_name = ''Steak'', chef_desc = ''Grilled'', chef_price = ''120.50'',
                            chef_course = Some Mains\<rparr>, picker_shown = Some Mains\<rparr>)
     = Inr ([\<lparr>item_id = ''s'', name = ''Steak'', description = ''Grilled'', price = parseFloat ''120.50'', course = Mains\<rparr>], chef_init)
   \<and> ''120.50'' = insert_point 2 (show_nat 12050)
   \<and> averagePrice [\<lparr>item_id = ''s'', name = ''Steak'', description = ''Grilled'', price = parseFloat ''120.50'', course = Mains\<rparr>]
       (course_name Mains) = ''120.50''"
proof -
  have add: "addItem ''s'' [] \<lparr>chef_name = ''Steak'', chef_desc = ''Grilled'', chef_price = ''120.50'', chef_course = Some Mains\<rparr>
     = Inr ([\<lparr>item_id = ''s'', name = ''Steak'', description = ''Grilled'', price = parseFloat ''120.50'', course = Mains\<rparr>], chef_init)"
    by (simp add: addItem_def chef_init_def)
  have p: "''120.50'' = insert_point 2 (show_nat 12050)" by (simp add: js_eval Let_def)
  show ?thesis
    using typed_price_shown_back [of 12050 "''s''" "[]" "\<lparr>chef_name = ''Steak'', chef_desc = ''Grilled'',
        chef_price = ''120.50'', chef_course = Some Mains\<rparr>" _ chef_init Mains] add p
    by simp
qed

subsection \<open>Screens that are not shown keep no state\<close>

text \<open>
  Leaving a screen unmounts it: in every reachable state a screen that is not shown
  holds the state its \<open>useState\<close> hooks start with.
\<close>

lemma reachable_hidden:
  "reachable s \<Longrightarrow> (screen s \<noteq> Chef \<longrightarrow> chef s = chef_ui_init) \<and> (screen s \<noteq> Filter \<longrightarrow> filt s = filter_init)"
proof (induction rule: reachable.induct)
  case init
  then show ?case by (simp add: app_init_def)
next
  case (step s s')
  from step.hyps(2) step.IH show ?case
    by (cases rule: app_step.cases) (auto simp: home_press_def split: home_button.splits)
qed

subsection \<open>Rendered lists have distinct keys\<close>

text \<open>
  C38: in every reachable state each list the app renders has distinct React keys: the
  rows of the home SectionList (\<open>keyExtractor={(item) => item.id}\<close>), the dishes of
  the filter screen and the rows under Remove Dishes (\<open>key={item.id}\<close>).
\<close>

theorem rendered_keys_distinct:
  assumes "reachable s"
  shows "distinct (concat (map snd (home_view (menuItems s))))
    \<and> (\<forall>ks. filter_render (filt s) (menuItems s) = Dish_List ks \<longrightarrow> distinct ks)
    \<and> (\<forall>rows. chef_list_render (menuItems s) = Remove_Rows rows \<longrightarrow> distinct (map fst rows))"
proof -
  have ids: "distinct (map item_id (menuItems s))"
    using reachable_inv [OF assms] by (simp add: app_inv_def ids_distinct_def item_ids_def)
  have "distinct (concat (map snd (home_view (menuItems s))))"
    using ids by (simp only: mset_eq_imp_distinct_iff [OF home_view_keys_mset])
  moreover have "distinct ks" if "filter_render (filt s) (menuItems s) = Dish_List ks" for ks
    using that ids distinct_map_filter [OF ids]
    by (auto simp: filter_render_def Let_def split: option.splits if_splits)
  moreover have "distinct (map fst rows)" if "chef_list_render (menuItems s) = Remove_Rows rows" for rows
    using that ids by (auto simp: chef_list_render_def comp_def split: if_splits)
  ultimately show ?thesis by blast
qed

theorem rendered_keys_distinct_witness:
  "reachable (app_init\<lparr>screen := Chef\<rparr>)
   \<and> distinct (concat (map snd (home_view (menuItems (app_init\<lparr>screen := Chef\<rparr>)))))"
  using rendered_keys_distinct [OF reachable_chef_entry] reachable_chef_entry by simp

subsection \<open>One event, at most one mutation\<close>

text \<open>
  C17: every step of the app leaves the shared list as it is, or, on the chef screen
  only, appends one dish with a fresh id or removes by one id: each user action
  performs at most one mutation, a whole \<open>add\<close> or \<open>remove\<close>, and no other screen
  writes the list.
\<close>

theorem app_step_one_mutation:
  assumes "app_step s s'"
  shows "menuItems s' = menuItems s
    \<or> screen s = Chef \<and> ((\<exists>x. menuItems s' = menuItems s @ [x] \<and> item_id x \<notin> set (item_ids (menuItems s)))
                         \<or> (\<exists>i. menuItems s' = removeItem i (menuItems s)))"
  using assms
proof (cases rule: app_step.cases)
  case (chef_step e a items' ui')
  then obtain st' where h: "chef_handle e (menuItems s) (form (chef s)) = (a, items', st')"
    using chef_ui_handle_items by blast
  show ?thesis
  proof (cases e)
    case (Press_Add u)
    show ?thesis
    proof (cases "addItem u (menuItems s) (form (chef s))")
      case (Inr r)
      then obtain its st'' where r: "addItem u (menuItems s) (form (chef s)) = Inr (its, st'')"
        by (cases r) auto
      with h Press_Add have "items' = its" by simp
      with addItem_InrD [OF r] chef_step Press_Add show ?thesis by (auto simp: fresh_event_def)
    qed (use h Press_Add chef_step in simp)
  next
    case (Press_Remove i)
    with h chef_step show ?thesis by auto
  qed (use h chef_step in auto)
qed auto

theorem app_step_one_mutation_witness:
  "app_step app_init (app_init\<lparr>screen := home_press Chef_Admin\<rparr>)
   \<and> menuItems (app_init\<lparr>screen := home_press Chef_Admin\<rparr>) = menuItems app_init"
proof -
  have st: "app_step app_init (app_init\<lparr>screen := home_press Chef_Admin\<rparr>)"
    by (rule nav_push) (simp add: app_init_def)
  show ?thesis using app_step_one_mutation [OF st] st by simp
qed

end
