(* ===== verification/Refinement.thy ===== *)
theory Refinement
  imports MenuStore App
begin

text \<open>
  The screens' definitions against the abstract store of the specification. A list of
  the screens and an abstract store correspond (\<open>store_rel\<close>) when they have the same
  items in the same order, each with a finite price whose value is the abstract price.
  Under this correspondence \<open>removeItem\<close>, \<open>filteredItems\<close> and \<open>sections\<close>
  implement \<open>remove\<close>, \<open>listByCourse\<close> and \<open>sectionsByCourse\<close>, and \<open>addItem\<close>
  implements \<open>add\<close> whenever the typed price is a finite non-negative number. Where the
  price is not, the two differ; those cases are findings, stated in \<open>Spec2Isabelle\<close>.
\<close>

definition item_rel :: "menu_item \<Rightarrow> store_item \<Rightarrow> bool" where
  "item_rel x y \<longleftrightarrow> item_id x = s_id y \<and> name x = s_name y \<and> description x = s_desc y
     \<and> js_value (price x) = Some (s_price y) \<and> course x = s_course y"

definition store_rel :: "menu_item list \<Rightarrow> store_item list \<Rightarrow> bool" where
  "store_rel items store \<longleftrightarrow> list_all2 item_rel items store"

definition abs_a :: store_item where
  "abs_a = \<lparr>s_id = ''a'', s_name = ''Soup'', s_desc = ''Hot'', s_price = 50, s_course = Starters\<rparr>"

lemma store_rel_filter:
  "store_rel items store \<Longrightarrow> (\<And>x y. item_rel x y \<Longrightarrow> P x = Q y) \<Longrightarrow>
   store_rel (filter P items) (filter Q store)"
  unfolding store_rel_def by (rule list_all2_filter)

lemma store_rel_list:
  "store_rel items store \<Longrightarrow> store_rel (filteredItems sel items) (spec_listByCourse sel store)"
  by (cases sel) (auto simp: spec_listByCourse_def store_rel_def item_rel_def intro: store_rel_filter [unfolded store_rel_def])

text \<open>
  C26: \<open>removeItem\<close>, the filter screen's \<open>filteredItems\<close> and the home screen's
  \<open>sections\<close> implement the specification's \<open>remove\<close>, \<open>listByCourse\<close> and
  \<open>sectionsByCourse\<close>: from corresponding lists they give corresponding results.
\<close>

theorem readers_refine:
  assumes "store_rel items store"
  shows "store_rel (removeItem i items) (spec_remove i store)
    \<and> store_rel (filteredItems sel items) (spec_listByCourse sel store)
    \<and> list_all2 (\<lambda>s (c, xs). title s = course_name c \<and> store_rel (data s) xs)
        (sections items) (spec_sectionsByCourse store)"
proof (intro conjI)
  show "store_rel (removeItem i items) (spec_remove i store)"
    unfolding removeItem_def spec_remove_def
    using assms by (rule store_rel_filter) (simp add: item_rel_def)
  show "store_rel (filteredItems sel items) (spec_listByCourse sel store)"
    using assms by (rule store_rel_list)
  have "\<And>c. store_rel (filteredItems (Some c) items) (spec_listByCourse (Some c) store)"
    using assms by (rule store_rel_list)
  then show "list_all2 (\<lambda>s (c, xs). title s = course_name c \<and> store_rel (data s) xs)
      (sections items) (spec_sectionsByCourse store)"
    by (simp add: sections_def courses_def spec_sectionsByCourse_def)
qed

theorem readers_refine_witness:
  "store_rel [item_a] [abs_a]
   \<and> store_rel (removeItem ''a'' [item_a]) (spec_remove ''a'' [abs_a])
   \<and> store_rel (filteredItems (Some Starters) [item_a]) (spec_listByCourse (Some Starters) [abs_a])
   \<and> list_all2 (\<lambda>s (c, xs). title s = course_name c \<and> store_rel (data s) xs)
        (sections [item_a]) (spec_sectionsByCourse [abs_a])"
proof -
  have r: "store_rel [item_a] [abs_a]"
    by (simp add: store_rel_def item_rel_def item_a_def abs_a_def js_eval)
  show ?thesis using readers_refine [OF r, of "''a''" "Some Starters"] r by simp
qed

text \<open>
  C27: when the typed price is a finite non-negative number, \<open>addItem\<close> implements the
  specification's \<open>add\<close>: it refuses exactly when \<open>add\<close> fails with \<open>ValidationError\<close>,
  and otherwise both append corresponding items.
\<close>

theorem addItem_refines_add:
  assumes "store_rel items store" and "js_value (parseFloat (chef_price st)) = Some q" and "0 \<le> q"
  shows "(case addItem u items st of
            Inl a \<Rightarrow> spec_add u (chef_name st) (chef_desc st) (Some q) (chef_course st) store = Inl ValidationError
          | Inr (items', st') \<Rightarrow> \<exists>store'. spec_add u (chef_name st) (chef_desc st) (Some q) (chef_course st) store = Inr store'
                                    \<and> store_rel items' store')"
proof -
  have "chef_price st \<noteq> []"
    using assms(2) by (auto simp: js_eval)
  with assms show ?thesis
    by (auto simp: addItem_def spec_add_def Let_def js_truthy_str_def store_rel_def item_rel_def
                   list_all2_appendI split: option.splits)
qed


theorem addItem_refines_add_witness:
  "store_rel [] [] \<and> js_value (parseFloat (chef_price (form chef_filled))) = Some 45 \<and> 0 \<le> (45::rat)
   \<and> (case addItem ''x'' [] (form chef_filled) of
        Inl a \<Rightarrow> spec_add ''x'' (chef_name (form chef_filled)) (chef_desc (form chef_filled)) (Some 45)
                   (chef_course (form chef_filled)) [] = Inl ValidationError
      | Inr (items', st') \<Rightarrow> \<exists>store'. spec_add ''x'' (chef_name (form chef_filled)) (chef_desc (form chef_filled))
                   (Some 45) (chef_course (form chef_filled)) [] = Inr store' \<and> store_rel items' store')"
proof -
  have p: "js_value (parseFloat (chef_price (form chef_filled))) = Some 45"
    by (simp add: chef_filled_def js_eval)
  have "store_rel [] []" by (simp add: store_rel_def)
  with p show ?thesis using addItem_refines_add [of "[]" "[]" "form chef_filled" 45 "''x''"] by simp
qed


text \<open>
  C32: for whole, non-negative prices adding up to at most \<open>2 ^ 44\<close>, the average the home
  screen shows is the specification's (the mean rounded half up to two decimals),
  provided the number of items of the course is no multiple of 40. (For 40 items an exact
  half cent is possible that is no double: 39 items at 25 and one at 26 average 25.025,
  which the binary quotient rounds down.)
\<close>

theorem averagePrice_refines_spec:
  assumes rel: "store_rel items store"
    and whole: "\<forall>y\<in>set store. s_price y = of_int \<lfloor>s_price y\<rfloor> \<and> 0 \<le> s_price y"
    and bound: "sum_list (map s_price store) \<le> 2 ^ 44" and len: "length store \<le> 2 ^ 53"
    and n40: "\<not> 40 dvd length (spec_listByCourse (Some c) store)"
  shows "averagePrice items (course_name c) = spec_averagePrice c store"
proof -
  define xs where "xs = spec_listByCourse (Some c) store"
  define its where "its = filter (\<lambda>i. course i = c) items"
  have its_f: "its = filteredItems (Some c) items" by (simp add: its_def)
  have relx: "store_rel its xs" unfolding its_f xs_def using rel by (rule store_rel_list)
  have nlen: "length its = length xs" using relx by (simp add: store_rel_def list_all2_lengthD)
  have xs_sub: "set xs \<subseteq> set store" by (auto simp: xs_def spec_listByCourse_def)
  show ?thesis
  proof (cases "xs = []")
    case True
    then have "its = []" using nlen by simp
    with True show ?thesis
      by (simp add: averagePrice_def spec_averagePrice_def its_def [symmetric] xs_def [symmetric])
  next
    case False
    define ks where "ks = map (\<lambda>y. nat \<lfloor>s_price y\<rfloor>) xs"
    have kv: "\<And>y. y \<in> set xs \<Longrightarrow> s_price y = of_nat (nat \<lfloor>s_price y\<rfloor>)"
      using whole xs_sub by (metis floor_of_int le_floor_iff of_int_0_le_iff of_nat_nat subsetD zero_le_floor)
    have pk: "map (\<lambda>x. js_value (price x)) its = map (\<lambda>k. Some (of_nat k)) ks"
    proof -
      have "map (\<lambda>x. js_value (price x)) its = map (\<lambda>y. Some (s_price y)) xs"
        using relx unfolding store_rel_def by (rule list_all2_map_eq) (simp add: item_rel_def)
      also have "\<dots> = map (\<lambda>k. Some (of_nat k)) ks"
        using kv by (simp add: ks_def)
      finally show ?thesis .
    qed
    have sumq: "(of_nat (sum_list ks) :: rat) = sum_list (map s_price xs)"
      unfolding ks_def by (rule of_nat_sum_list_map) (rule kv)
    have "sum_list (map s_price xs) \<le> sum_list (map s_price store)"
      unfolding xs_def spec_listByCourse_def using whole by (simp add: sum_list_filter_le)
    then have "(of_nat (sum_list ks) :: rat) \<le> of_nat (2 ^ 44)" using sumq bound by simp
    then have S44: "sum_list ks \<le> 2 ^ 44" by (simp only: of_nat_le_iff)
    have nb: "length ks \<le> 2 ^ 53" using nlen len xs_sub
      by (metis length_map ks_def length_filter_le order.trans xs_def spec_listByCourse_def option.simps(5))
    have its_c: "its = filter (\<lambda>i. course_name (course i) = course_name c) items" by (simp add: its_def)
    have "averagePrice items (course_name c) =
        (let n = nat \<lfloor>(of_nat (sum_list ks) / of_nat (length ks) :: rat) * 100 + 1 / 2\<rfloor>
         in insert_point 2 (if n = 0 then ''0'' else show_nat n))"
      using n40 nlen False
      by (intro averagePrice_whole_cents [OF its_c pk _ S44 nb]) (simp_all add: ks_def xs_def [symmetric])
    then show ?thesis
      using False sumq by (simp add: spec_averagePrice_def xs_def [symmetric] half_up_2_def ks_def)
  qed
qed


theorem averagePrice_refines_spec_witness:
  "store_rel [item_a] [abs_a] \<and> s_price abs_a = of_int \<lfloor>s_price abs_a\<rfloor> \<and> 0 \<le> s_price abs_a
   \<and> sum_list (map s_price [abs_a]) \<le> 2 ^ 44 \<and> length [abs_a] \<le> 2 ^ 53
   \<and> \<not> 40 dvd length (spec_listByCourse (Some Starters) [abs_a])
   \<and> averagePrice [item_a] (course_name Starters) = spec_averagePrice Starters [abs_a]"
proof -
  have r: "store_rel [item_a] [abs_a]"
    by (simp add: store_rel_def item_rel_def item_a_def abs_a_def js_eval)
  show ?thesis
    using averagePrice_refines_spec [OF r, of Starters] r
    by (simp add: abs_a_def spec_listByCourse_def)
qed

end
