(* ===== verification/Screens.thy ===== *)
theory Screens
  imports App
begin

text \<open>
  The text content of each screen as rendered, one definition per component body: the
  heading, the buttons and inputs with their labels and placeholders, the pickers, and
  the parts modelled in the component theories (\<open>home_view\<close>, \<open>filter_render\<close>,
  \<open>chef_list_render\<close>). Styles, images and gradients carry no state and are left out.
  \<open>app_render\<close> shows the screen on top of the stack.
\<close>

section \<open>Rendered screens\<close>

text \<open>A text input: its placeholder and the value it shows.\<close>

datatype text_input = Text_Input js_string js_string

text \<open>A course picker: its placeholder label, its item labels and the item it shows.\<close>

datatype picker_view = Picker js_string "js_string list" "course option"

datatype screen_view =
    Home_Screen js_string "js_string list" "(js_string \<times> js_string list) list"
  | Filter_Screen js_string picker_view filter_view
  | Chef_Screen js_string js_string "text_input list" picker_view js_string js_string chef_list_view

text \<open>
  Both screens build the same \<open>RNPickerSelect\<close>: placeholder \<open>Select Course\<close> with value
  \<open>null\<close>, and the items Starters, Mains, Desserts.
\<close>

definition course_picker :: "course option \<Rightarrow> picker_view" where
  "course_picker shown = Picker ''Select Course'' [''Starters'', ''Mains'', ''Desserts''] shown"

text \<open>The labels of the two home buttons.\<close>

definition home_button_label :: "home_button \<Rightarrow> js_string" where
  "home_button_label b = (case b of Filter_Courses \<Rightarrow> ''Filter Courses'' | Chef_Admin \<Rightarrow> ''Chef Admin'')"

text \<open>\<open>HomeScreen\<close>: the header, the button row and the \<open>SectionList\<close>.\<close>

definition home_screen_render :: "menu_item list \<Rightarrow> screen_view" where
  "home_screen_render items =
     Home_Screen ''Chef Christoffel's Menu'' (map home_button_label [Filter_Courses, Chef_Admin])
       (home_view items)"

text \<open>
  \<open>FilterScreen\<close>: the header, the picker and what is below it. Its picker has no
  \<open>value\<close> prop either, so it shows the item last picked on it, which is the state
  \<open>selectedCourse\<close>: only that picker sets the state, and both start over when the screen
  is mounted.
\<close>

definition filter_screen_render :: "filter_state \<Rightarrow> menu_item list \<Rightarrow> screen_view" where
  "filter_screen_render st items =
     Filter_Screen ''Filter Menu by Course'' (course_picker (selectedCourse st)) (filter_render st items)"

text \<open>
  \<open>ChefScreen\<close>: the header, the form (three controlled inputs, the uncontrolled picker,
  the Add Dish button) and the Remove Dishes list.
\<close>

definition chef_screen_render :: "chef_ui \<Rightarrow> menu_item list \<Rightarrow> screen_view" where
  "chef_screen_render ui items =
     (let (n, d, p, shown) = chef_form_display ui
      in Chef_Screen ''Chef Admin Panel'' ''Add New Dish''
           [Text_Input ''Dish Name'' n, Text_Input ''Description'' d, Text_Input ''Price (R)'' p]
           (course_picker shown) ''Add Dish'' ''Remove Dishes'' (chef_list_render items))"

text \<open>The app shows the screen of the current route.\<close>

definition app_render :: "app_state \<Rightarrow> screen_view" where
  "app_render s =
     (case screen s of
        Home \<Rightarrow> home_screen_render (menuItems s)
      | Filter \<Rightarrow> filter_screen_render (filt s) (menuItems s)
      | Chef \<Rightarrow> chef_screen_render (chef s) (menuItems s))"

subsection \<open>Properties\<close>

text \<open>
  C8: from every reachable state on the home screen, the Filter Courses button opens
  the filter screen on its prompt with the picker on its placeholder, and the Chef Admin
  button opens the chef screen with an empty form, the picker on its placeholder and the
  current dishes under Remove Dishes, whatever was entered or selected there before.
\<close>

theorem screens_open_fresh:
  assumes "reachable s" and "screen s = Home"
  shows "app_step s (s\<lparr>screen := home_press Filter_Courses\<rparr>)
    \<and> app_render (s\<lparr>screen := home_press Filter_Courses\<rparr>) =
        Filter_Screen ''Filter Menu by Course'' (course_picker None) (Info_Text ''Please select a course above'')
    \<and> app_step s (s\<lparr>screen := home_press Chef_Admin\<rparr>)
    \<and> app_render (s\<lparr>screen := home_press Chef_Admin\<rparr>) =
        Chef_Screen ''Chef Admin Panel'' ''Add New Dish''
          [Text_Input ''Dish Name'' '''', Text_Input ''Description'' '''', Text_Input ''Price (R)'' '''']
          (course_picker None) ''Add Dish'' ''Remove Dishes'' (chef_list_render (menuItems s))"
proof -
  have "chef s = chef_ui_init" "filt s = filter_init" using reachable_hidden [OF assms(1)] assms(2) by simp_all
  moreover have "app_step s (s\<lparr>screen := home_press Filter_Courses\<rparr>)"
    "app_step s (s\<lparr>screen := home_press Chef_Admin\<rparr>)" using assms(2) by (rule nav_push)+
  ultimately show ?thesis using assms(2)
    by (simp add: app_render_def home_press_def filter_screen_render_def filter_render_def
        filter_init_def chef_screen_render_def chef_form_display_def chef_ui_init_def chef_init_def)
qed

theorem screens_open_fresh_witness:
  "reachable app_init \<and> screen app_init = Home
   \<and> app_render (app_init\<lparr>screen := home_press Chef_Admin\<rparr>) =
        Chef_Screen ''Chef Admin Panel'' ''Add New Dish''
          [Text_Input ''Dish Name'' '''', Text_Input ''Description'' '''', Text_Input ''Price (R)'' '''']
          (course_picker None) ''Add Dish'' ''Remove Dishes'' (No_Dishes_Text ''No dishes added yet.'')"
  using screens_open_fresh [OF reachable.init] reachable.init
  by (simp add: app_init_def chef_list_render_def)

text \<open>
  C33: the chef screen and the home screen show the same dishes: the Remove list says
  \<open>No dishes added yet.\<close> exactly when every home section is empty, and otherwise its
  row keys are, as a multiset, the keys of all the home screen's rows.
\<close>

theorem chef_home_same_dishes:
  "(chef_list_render items = No_Dishes_Text ''No dishes added yet.'' \<longleftrightarrow> list_all (\<lambda>s. snd s = []) (home_view items))
   \<and> (\<forall>rows. chef_list_render items = Remove_Rows rows \<longrightarrow>
        mset (map fst rows) = mset (concat (map snd (home_view items))))"
proof -
  have keys: "mset (concat (map snd (home_view items))) = mset (map item_id items)"
    by (rule home_view_keys_mset)
  have "list_all (\<lambda>s. snd s = []) (home_view items) \<longleftrightarrow> concat (map snd (home_view items)) = []"
    by (simp add: list_all_iff)
  also have "\<dots> \<longleftrightarrow> items = []"
    using keys by (metis mset_zero_iff map_is_Nil_conv)
  finally have e: "list_all (\<lambda>s. snd s = []) (home_view items) \<longleftrightarrow> items = []" .
  have "map fst (map (\<lambda>item. (item_id item, name item)) items) = map item_id items" by simp
  then show ?thesis using keys e by (auto simp: chef_list_render_def comp_def simp del: mset_map)
qed

theorem chef_home_same_dishes_witness:
  "chef_list_render [item_a, item_b] = Remove_Rows [(''a'', ''Soup''), (''b'', ''Steak'')]
   \<and> mset (map fst [(''a'', ''Soup''), (''b'', ''Steak'')]) = mset (concat (map snd (home_view [item_a, item_b])))"
proof -
  have r: "chef_list_render [item_a, item_b] = Remove_Rows [(''a'', ''Soup''), (''b'', ''Steak'')]"
    by (simp add: chef_list_render_def item_a_def item_b_def)
  show ?thesis using chef_home_same_dishes [of "[item_a, item_b]"] r by simp
qed

end
