(* ===== verification/Styles.thy ===== *)
theory Styles
  imports Screens
begin

text \<open>
  The presentation data of the three screens: each \<open>StyleSheet.create({...})\<close> object
  as an association list from style names to their properties, the names the JSX refers
  to as \<open>styles.x\<close> (in the order they occur), and the colour literals written inline
  (the \<open>LinearGradient\<close> colours and the placeholder greys). A colour string is checked
  against the forms the code uses: \<open>#\<close> with 3, 4, 6 or 8 hex digits, and
  \<open>rgba(r, g, b, a)\<close> with channels up to 255 and an alpha between 0 and 1.
\<close>

section \<open>Style sheets\<close>

text \<open>A style value: a number, a string, or a nested object such as \<open>textShadowOffset\<close>.\<close>

datatype style_value = SNum rat | SStr js_string | SObj "(js_string \<times> style_value) list"

type_synonym style = "(js_string \<times> style_value) list"
type_synonym style_sheet = "(js_string \<times> style) list"

definition home_styles :: style_sheet where
  "home_styles = [
    (''gradient'', [(''flex'', SNum 1)]),
    (''container'', [(''flex'', SNum 1), (''paddingHorizontal'', SNum 20), (''paddingTop'', SNum 30)]),
    (''logo'', [(''width'', SNum 110), (''height'', SNum 110), (''resizeMode'', SStr ''contain''), (''alignSelf'', SStr ''center''), (''marginBottom'', SNum 10)]),
    (''header'', [(''fontSize'', SNum 26), (''fontWeight'', SStr ''bold''), (''color'', SStr ''#fff''), (''textAlign'', SStr ''center''), (''marginBottom'', SNum 20), (''textShadowColor'', SStr ''rgba(0, 0, 0, 0.3)''), (''textShadowOffset'', SObj [(''width'', SNum 1), (''height'', SNum 1)]), (''textShadowRadius'', SNum 2)]),
    (''buttonRow'', [(''flexDirection'', SStr ''row''), (''justifyContent'', SStr ''space-around''), (''marginBottom'', SNum 25)]),
    (''button'', [(''backgroundColor'', SStr ''#0056D2''), (''paddingVertical'', SNum 10), (''paddingHorizontal'', SNum 18), (''borderRadius'', SNum 25), (''shadowColor'', SStr ''#000''), (''shadowOpacity'', SNum (2 / 10)), (''shadowRadius'', SNum 3), (''elevation'', SNum 3)]),
    (''buttonText'', [(''color'', SStr ''#fff''), (''fontWeight'', SStr ''600''), (''fontSize'', SNum 16)]),
    (''listContent'', [(''paddingBottom'', SNum 40)]),
    (''courseSection'', [(''backgroundColor'', SStr ''rgba(255, 255, 255, 0.15)''), (''borderRadius'', SNum 12), (''padding'', SNum 8), (''marginBottom'', SNum 10), (''marginTop'', SNum 5)]),
    (''courseHeader'', [(''fontSize'', SNum 20), (''fontWeight'', SStr ''700''), (''color'', SStr ''#fff'')]),
    (''courseAvg'', [(''fontSize'', SNum 16), (''fontWeight'', SStr ''400''), (''color'', SStr ''#E0E0E0'')])]"

definition home_style_refs :: "js_string list" where
  "home_style_refs = [''gradient'', ''container'', ''logo'', ''header'', ''buttonRow'', ''button'', ''buttonText'', ''button'', ''buttonText'', ''courseSection'', ''courseHeader'', ''courseAvg'', ''listContent'']"

definition filter_styles :: style_sheet where
  "filter_styles = [
    (''gradient'', [(''flex'', SNum 1)]),
    (''container'', [(''flex'', SNum 1), (''paddingHorizontal'', SNum 20), (''paddingTop'', SNum 40), (''paddingBottom'', SNum 20)]),
    (''logo'', [(''width'', SNum 100), (''height'', SNum 100), (''resizeMode'', SStr ''contain''), (''alignSelf'', SStr ''center''), (''marginBottom'', SNum 10)]),
    (''header'', [(''fontSize'', SNum 26), (''fontWeight'', SStr ''bold''), (''color'', SStr ''#fff''), (''textAlign'', SStr ''center''), (''marginBottom'', SNum 20), (''textShadowColor'', SStr ''rgba(0, 0, 0, 0.3)''), (''textShadowOffset'', SObj [(''width'', SNum 1), (''height'', SNum 1)]), (''textShadowRadius'', SNum 2)]),
    (''filterBox'', [(''backgroundColor'', SStr ''rgba(255, 255, 255, 0.15)''), (''borderRadius'', SNum 15), (''padding'', SNum 12), (''marginBottom'', SNum 20)]),
    (''input'', [(''backgroundColor'', SStr ''rgba(255, 255, 255, 0.1)''), (''borderRadius'', SNum 10), (''padding'', SNum 10), (''color'', SStr ''#fff''), (''fontSize'', SNum 16)]),
    (''infoText'', [(''color'', SStr ''#fff''), (''textAlign'', SStr ''center''), (''fontSize'', SNum 16), (''opacity'', SNum (9 / 10)), (''marginTop'', SNum 10)]),
    (''list'', [(''paddingBottom'', SNum 60)]),
    (''menuCard'', [(''backgroundColor'', SStr ''rgba(255, 255, 255, 0.15)''), (''borderRadius'', SNum 12), (''marginVertical'', SNum 6), (''padding'', SNum 6)])]"

definition filter_style_refs :: "js_string list" where
  "filter_style_refs = [''gradient'', ''container'', ''logo'', ''header'', ''filterBox'', ''input'', ''input'', ''infoText'', ''infoText'', ''list'', ''menuCard'']"

definition chef_styles :: style_sheet where
  "chef_styles = [
    (''gradient'', [(''flex'', SNum 1)]),
    (''scrollContainer'', [(''flexGrow'', SNum 1), (''paddingHorizontal'', SNum 20), (''paddingTop'', SNum 40), (''paddingBottom'', SNum 60)]),
    (''logo'', [(''width'', SNum 100), (''height'', SNum 100), (''resizeMode'', SStr ''contain''), (''alignSelf'', SStr ''center''), (''marginBottom'', SNum 10)]),
    (''header'', [(''fontSize'', SNum 26), (''fontWeight'', SStr ''bold''), (''color'', SStr ''#fff''), (''textAlign'', SStr ''center''), (''marginBottom'', SNum 20), (''textShadowColor'', SStr ''rgba(0, 0, 0, 0.3)''), (''textShadowOffset'', SObj [(''width'', SNum 1), (''height'', SNum 1)]), (''textShadowRadius'', SNum 2)]),
    (''subHeader'', [(''fontSize'', SNum 20), (''fontWeight'', SStr ''600''), (''color'', SStr ''#fff''), (''marginBottom'', SNum 10), (''marginTop'', SNum 10)]),
    (''form'', [(''backgroundColor'', SStr ''rgba(255, 255, 255, 0.15)''), (''borderRadius'', SNum 15), (''padding'', SNum 15), (''marginBottom'', SNum 20)]),
    (''input'', [(''backgroundColor'', SStr ''rgba(255, 255, 255, 0.1)''), (''borderRadius'', SNum 10), (''padding'', SNum 10), (''marginVertical'', SNum 6), (''color'', SStr ''#fff''), (''fontSize'', SNum 16)]),
    (''addButton'', [(''backgroundColor'', SStr ''#0400ffff''), (''paddingVertical'', SNum 12), (''borderRadius'', SNum 25), (''alignItems'', SStr ''center''), (''marginTop'', SNum 10), (''shadowColor'', SStr ''#000''), (''shadowOpacity'', SNum (2 / 10)), (''shadowRadius'', SNum 3), (''elevation'', SNum 3)]),
    (''addButtonText'', [(''color'', SStr ''#ffffffff''), (''fontWeight'', SStr ''700''), (''fontSize'', SNum 16)]),
    (''item'', [(''flexDirection'', SStr ''row''), (''justifyContent'', SStr ''space-between''), (''backgroundColor'', SStr ''rgba(255, 255, 255, 0.15)''), (''borderRadius'', SNum 10), (''padding'', SNum 10), (''marginVertical'', SNum 5)]),
    (''itemText'', [(''color'', SStr ''#fff''), (''fontSize'', SNum 16), (''fontWeight'', SStr ''500'')]),
    (''removeButton'', [(''backgroundColor'', SStr ''#FF4B4B''), (''paddingVertical'', SNum 6), (''paddingHorizontal'', SNum 12), (''borderRadius'', SNum 20)]),
    (''removeButtonText'', [(''color'', SStr ''#fff''), (''fontWeight'', SStr ''600'')]),
    (''emptyText'', [(''color'', SStr ''#fff''), (''textAlign'', SStr ''center''), (''fontStyle'', SStr ''italic''), (''opacity'', SNum (8 / 10)), (''marginTop'', SNum 10)])]"

definition chef_style_refs :: "js_string list" where
  "chef_style_refs = [''gradient'', ''scrollContainer'', ''logo'', ''header'', ''form'', ''subHeader'', ''input'', ''input'', ''input'', ''input'', ''input'', ''addButton'', ''addButtonText'', ''subHeader'', ''emptyText'', ''item'', ''itemText'', ''removeButton'', ''removeButtonText'']"

text \<open>The inline colour literals of each screen.\<close>

definition home_inline_colours :: "js_string list" where
  "home_inline_colours = [''#007BFF'', ''#00A6FF'']"

definition filter_inline_colours :: "js_string list" where
  "filter_inline_colours = [''#007BFF'', ''#00A6FF'', ''#ccc'']"

definition chef_inline_colours :: "js_string list" where
  "chef_inline_colours = [''#007BFF'', ''#00A6FF'', ''#ccc'', ''#ccc'', ''#ccc'', ''#ccc'']"

text \<open>The style data of the screen of a route.\<close>

fun screen_styles :: "route \<Rightarrow> style_sheet" where
  "screen_styles Home = home_styles"
| "screen_styles Filter = filter_styles"
| "screen_styles Chef = chef_styles"

fun screen_style_refs :: "route \<Rightarrow> js_string list" where
  "screen_style_refs Home = home_style_refs"
| "screen_style_refs Filter = filter_style_refs"
| "screen_style_refs Chef = chef_style_refs"

fun screen_inline_colours :: "route \<Rightarrow> js_string list" where
  "screen_inline_colours Home = home_inline_colours"
| "screen_inline_colours Filter = filter_inline_colours"
| "screen_inline_colours Chef = chef_inline_colours"

subsection \<open>Colour strings\<close>

definition is_hex_digit :: "char \<Rightarrow> bool" where
  "is_hex_digit c \<longleftrightarrow> c \<in> set ''0123456789abcdefABCDEF''"

definition hex_colour :: "js_string \<Rightarrow> bool" where
  "hex_colour s = (case s of [] \<Rightarrow> False
     | c # ds \<Rightarrow> c = CHR ''#'' \<and> length ds \<in> {3, 4, 6, 8} \<and> list_all is_hex_digit ds)"

fun split_commas :: "string \<Rightarrow> string list" where
  "split_commas [] = [[]]"
| "split_commas (c # cs) =
     (let r = split_commas cs in if c = CHR '','' then [] # r else (c # hd r) # tl r)"

definition rgba_channel :: "string \<Rightarrow> bool" where
  "rgba_channel p \<longleftrightarrow> p \<noteq> [] \<and> list_all is_dec_digit p \<and> digits_value p \<le> 255"

definition rgba_alpha :: "string \<Rightarrow> bool" where
  "rgba_alpha p \<longleftrightarrow> p \<noteq> [] \<and> list_all (\<lambda>c. is_dec_digit c \<or> c = CHR ''.'') p
     \<and> (case js_value (parseFloat p) of Some v \<Rightarrow> 0 \<le> v \<and> v \<le> 1 | None \<Rightarrow> False)"

definition rgba_colour :: "js_string \<Rightarrow> bool" where
  "rgba_colour s \<longleftrightarrow> take 5 s = ''rgba('' \<and> s \<noteq> [] \<and> last s = CHR '')''
     \<and> (let ps = split_commas (filter (\<lambda>c. c \<noteq> CHR '' '') (butlast (drop 5 s)))
        in length ps = 4 \<and> list_all rgba_channel (take 3 ps) \<and> rgba_alpha (ps ! 3))"

definition css_colour :: "js_string \<Rightarrow> bool" where
  "css_colour s \<longleftrightarrow> hex_colour s \<or> rgba_colour s"

definition colour_props :: "js_string list" where
  "colour_props = [''color'', ''backgroundColor'', ''shadowColor'', ''textShadowColor'']"

text \<open>Every colour property of every style holds a colour string.\<close>

definition colours_ok :: "style_sheet \<Rightarrow> bool" where
  "colours_ok sheet = list_all (\<lambda>(k, st). list_all (\<lambda>(p, v). p \<in> set colour_props \<longrightarrow>
     (case v of SStr s \<Rightarrow> css_colour s | _ \<Rightarrow> False)) st) sheet"

text \<open>
  A sheet fits the JSX that uses it: its names are distinct (a repeated key of an
  object literal would silently replace the first), every \<open>styles.x\<close> the JSX reads is
  defined (an undefined one is \<open>undefined\<close>, and the element loses its style), and every
  defined style is used.
\<close>

definition sheet_fits :: "style_sheet \<Rightarrow> js_string list \<Rightarrow> bool" where
  "sheet_fits sheet refs \<longleftrightarrow> distinct (map fst sheet)
     \<and> list_all (\<lambda>x. x \<in> set (map fst sheet)) refs \<and> list_all (\<lambda>k. k \<in> set refs) (map fst sheet)"

subsection \<open>Properties\<close>

lemmas style_data_defs = home_styles_def filter_styles_def chef_styles_def
  home_style_refs_def filter_style_refs_def chef_style_refs_def
  home_inline_colours_def filter_inline_colours_def chef_inline_colours_def

lemmas colour_defs = colours_ok_def colour_props_def css_colour_def hex_colour_def is_hex_digit_def
  rgba_colour_def rgba_channel_def rgba_alpha_def

text \<open>
  C4: on every screen the style sheet fits its JSX: no style name is defined twice,
  every \<open>styles.x\<close> the screen reads is defined, every defined style is read, and every
  colour, in the sheet or written inline, is a well-formed colour string.
\<close>

theorem screen_styles_ok:
  "sheet_fits (screen_styles r) (screen_style_refs r)
   \<and> colours_ok (screen_styles r) \<and> list_all css_colour (screen_inline_colours r)"
  by (cases r) (simp_all add: sheet_fits_def colour_defs style_data_defs js_eval Let_def)

text \<open>The three screens share the header style and the background gradient.\<close>

lemma screens_share_header:
  "map_of (screen_styles r) ''header'' = map_of home_styles ''header''
   \<and> take 2 (screen_inline_colours r) = home_inline_colours"
  by (cases r) (simp_all add: style_data_defs)

end
