(* ===== verification/Batching.thy ===== *)
theory Batching
  imports ChefScreen
begin

text \<open>
  Events handled against one render. Each handler of \<open>ChefScreen\<close> computes its updates
  from the values of the render it belongs to: \<open>setMenuItems(menuItems.filter(...))\<close>
  and \<open>setMenuItems([...menuItems, newItem])\<close> pass a new list, not an updater
  function, and \<open>addItem\<close> reads \<open>name\<close>, \<open>desc\<close>, \<open>price\<close> and \<open>course\<close> of that
  render. React applies the queued values in order, so when several events are handled
  before the screen renders again, the last \<open>setMenuItems\<close> wins. \<open>chef_handle\<close> (one
  event per render, as the specification's section 5 assumes) is the special case of a
  batch of one.
\<close>

section \<open>Updates queued by one handler\<close>

text \<open>
  The \<open>setState\<close> calls of one handler: the list passed to \<open>setMenuItems\<close>, if it is
  called, and the form setters, each of which writes one field with a value fixed at the
  time of the call.
\<close>

definition chef_updates :: "chef_event \<Rightarrow> menu_item list \<Rightarrow> chef_state \<Rightarrow> menu_item list option \<times> (chef_state \<Rightarrow> chef_state)" where
  "chef_updates e items st =
     (case e of
        Change_Name s \<Rightarrow> (None, \<lambda>f. f\<lparr>chef_name := s\<rparr>)
      | Change_Desc s \<Rightarrow> (None, \<lambda>f. f\<lparr>chef_desc := s\<rparr>)
      | Change_Price s \<Rightarrow> (None, \<lambda>f. f\<lparr>chef_price := s\<rparr>)
      | Pick_Course c \<Rightarrow> (None, \<lambda>f. f\<lparr>chef_course := c\<rparr>)
      | Press_Add u \<Rightarrow>
          (case addItem u items st of
             Inl a \<Rightarrow> (None, id)
           | Inr (items', st') \<Rightarrow> (Some items',
               \<lambda>f. f\<lparr>chef_name := '''', chef_desc := '''', chef_price := '''', chef_course := None\<rparr>))
      | Press_Remove i \<Rightarrow> (Some (removeItem i items), id))"

text \<open>
  A batch: every handler sees the render's \<open>items\<close> and \<open>st\<close>; their updates are applied
  in order to the state.
\<close>

fun chef_batch :: "chef_event list \<Rightarrow> menu_item list \<Rightarrow> chef_state \<Rightarrow> menu_item list \<times> chef_state \<Rightarrow> menu_item list \<times> chef_state" where
  "chef_batch [] items st acc = acc"
| "chef_batch (e # es) items st (cur, f) =
     (let (l, g) = chef_updates e items st
      in chef_batch es items st (case l of Some l' \<Rightarrow> l' | None \<Rightarrow> cur, g f))"

subsection \<open>Properties\<close>


text \<open>
  C22: a double tap on Add Dish handled against one render adds the dish once, with the
  id of the second tap: both handlers read the same filled form and append to the same
  rendered list, and the second \<open>setMenuItems\<close> replaces the first.
\<close>

theorem chef_batch_double_add:
  assumes "addItem u items st = Inr (items1, st1)" and "addItem v items st = Inr (items2, st2)"
  shows "chef_batch [Press_Add u, Press_Add v] items st (items, st) = (items2, chef_init)
    \<and> length items2 = Suc (length items)"
proof -
  have "st2 = chef_init" and "length items2 = Suc (length items)" using addItem_InrD [OF assms(2)] by auto
  then show ?thesis using assms by (simp add: chef_updates_def chef_init_def)
qed

theorem chef_batch_double_add_witness:
  "addItem ''x'' [] (form chef_filled) = Inr ([item_x], chef_init)
   \<and> addItem ''y'' [] (form chef_filled) = Inr ([item_x\<lparr>item_id := ''y''\<rparr>], chef_init)
   \<and> chef_batch [Press_Add ''x'', Press_Add ''y''] [] (form chef_filled) ([], form chef_filled)
       = ([item_x\<lparr>item_id := ''y''\<rparr>], chef_init)"
proof -
  have a: "addItem ''x'' [] (form chef_filled) = Inr ([item_x], chef_init)"
    and b: "addItem ''y'' [] (form chef_filled) = Inr ([item_x\<lparr>item_id := ''y''\<rparr>], chef_init)"
    by (simp_all add: addItem_def chef_filled_def item_x_def chef_init_def)
  show ?thesis using chef_batch_double_add [OF a b] a b by simp
qed

text \<open>
  C15: two Remove presses on different dishes handled against one render remove only
  the second dish: the second \<open>setMenuItems\<close> replaces the first. Handled one render
  per press, the sequence the specification's section 5 assumes, both are removed.
\<close>

theorem chef_batch_lost_removal:
  assumes "i \<in> set (item_ids items)" and "i \<noteq> j"
  shows "fst (chef_batch [Press_Remove i, Press_Remove j] items st (items, st)) = removeItem j items
    \<and> i \<in> set (item_ids (fst (chef_batch [Press_Remove i, Press_Remove j] items st (items, st))))
    \<and> i \<notin> set (item_ids (fst (snd (chef_ui_run [Press_Remove i, Press_Remove j] items ui))))"
  using assms by (auto simp: chef_updates_def chef_ui_handle_def removeItem_def)

theorem chef_batch_lost_removal_witness:
  "''x'' \<in> set (item_ids [item_x, item_x\<lparr>item_id := ''y''\<rparr>]) \<and> ''x'' \<noteq> ''y''
   \<and> fst (chef_batch [Press_Remove ''x'', Press_Remove ''y''] [item_x, item_x\<lparr>item_id := ''y''\<rparr>] chef_init
          ([item_x, item_x\<lparr>item_id := ''y''\<rparr>], chef_init)) = [item_x]"
  using chef_batch_lost_removal [of "''x''" "[item_x, item_x\<lparr>item_id := ''y''\<rparr>]" "''y''" chef_init chef_ui_init]
  by (simp add: item_x_def removeItem_def)

end
