(* ===== verification/Spec2Isabelle.thy ===== *)
theory Spec2Isabelle
  imports Refinement Styles Batching
begin

text \<open>
  \<^bold>\<open>A verification library for the menu app of the repository MAST-POE-Part-3.\<close>

  \<^bold>\<open>The program.\<close> A React Native app with three screens over one list of menu items.
  \<open>App\<close> (not among the sources) owns the list in a \<open>useState\<close> hook and passes it,
  with its setter, down to the screens of a stack navigator. \<open>src/screens/ChefScreen.tsx\<close>
  keeps a form (name, description, price as typed, course) and adds an item
  (\<open>addItem\<close>: a required-fields check, \<open>parseFloat\<close> of the price, a fresh
  \<open>uuidv4()\<close> id, append, reset of the form) or removes one by id (\<open>removeItem\<close>: a
  filter); below the form it lists the items with a Remove button each.
  \<open>src/screens/HomeScreen.tsx\<close> groups the items into one section per course, in the
  order Starters, Mains, Desserts, heads each with the average price (\<open>averagePrice\<close>:
  a filter, a sum by \<open>reduce\<close>, a division, \<open>toFixed(2)\<close>, or \<open>0.00\<close> for no item), and
  has the two buttons that open the other screens. \<open>src/screens/FilterScreen.tsx\<close>
  keeps a selected course (\<open>null\<close> at first) and shows a prompt, a \<open>No dishes found\<close>
  message or the items of that course. The screens interact only through the shared
  list: the chef screen writes it, the other two read it.

  \<^bold>\<open>The theories.\<close>
  \<^item> \<open>Prelude\<close>: the rule collections \<open>js_eval\<close> and \<open>menu_simps\<close>, JavaScript
    string truthiness, and facts on filtering a list by a key (idempotence, the
    partition into the parts of a list of keys, counted and as a multiset, order,
    related lists).
  \<^item> \<open>JsNumber\<close>: the JavaScript number (IEEE 754 binary64) as \<open>jsnum\<close>, a finite value
    kept exactly as \<open>m * 2 ^ e\<close>; \<open>round_double\<close>, rounding to nearest-even, through
    which every arithmetic result and decimal conversion goes; \<open>js_add\<close>, \<open>js_div\<close>,
    \<open>js_of_int\<close>. Proved: every result is a canonical double, within half a unit in
    the last place of the exact value, and exact when the value is a double.
  \<^item> \<open>JsArith\<close>: no overflow below \<open>2 ^ 1000\<close>, the relative error \<open>2 ^ -53\<close> of
    a rounding, exact \<open>+\<close> on whole numbers up to \<open>2 ^ 53\<close>, \<open>/\<close> as the rounded exact
    quotient, and \<open>mean_to_cents\<close>: the mean \<open>total / n\<close> of a whole total up to
    \<open>2 ^ 44\<close> rounds to the same cents as the exact mean unless \<open>40\<close> divides \<open>n\<close>
    (the proof splits on whether the exact mean is a half cent, which for \<open>n\<close> no
    multiple of 40 makes it a multiple of \<open>1/8\<close>, hence a double).
  \<^item> \<open>JsString\<close>: \<open>parseFloat\<close> and \<open>toFixed\<close> (with \<open>Number::toString\<close> for
    magnitudes of at least \<open>10 ^ 21\<close>), from the ECMAScript specification, as the
    library the code calls. Proved: \<open>toFixed(f)\<close> below \<open>10 ^ 21\<close> prints a sign, digits,
    a point and \<open>f\<close> digits that are \<open>|x| * 10 ^ f\<close> rounded half up
    (\<open>toFixed_spec\<close>); \<open>parseFloat\<close> reads back printed integers up to \<open>2 ^ 53\<close>
    exactly, and a price printed with two decimals reads back as the double nearest
    to it, whose \<open>toFixed(2)\<close> is the same text.
  \<^item> \<open>MenuTypes\<close>: \<open>course\<close> and the record \<open>menu_item\<close> of \<open>src/types/Types.ts\<close>
    (modelled from the specification), with \<open>ids_distinct\<close>.
  \<^item> \<open>ChefScreen\<close>: the form as the record \<open>chef_state\<close>, \<open>addItem\<close> (result
    \<open>alert + (menu_item list \<times> chef_state)\<close>), \<open>removeItem\<close>, \<open>chef_handle\<close> (one
    event), \<open>chef_list_render\<close> (the Remove list), and \<open>chef_ui\<close>, the form with what
    the uncontrolled course picker displays, with \<open>chef_ui_handle\<close> and
    \<open>chef_ui_run\<close> (a sequence of events). Claims C1 to C3, C5 to C7, C11, C20, C21
    (after an addition the stale picker makes every next Add Dish fail, whatever is
    typed), C37 (an addition appends one row to the Remove list).
  \<^item> \<open>HomeScreen\<close>: \<open>courses\<close>, \<open>sections\<close>, \<open>price_total\<close> (the \<open>reduce\<close>),
    \<open>averagePrice\<close>, \<open>section_header\<close>, \<open>home_view\<close>. Claims C9, C10, C12 to C14,
    C31 (for whole prices the average does not depend on the order of the dishes: the
    sums are exact and canonical doubles of equal value are equal), and C39: for whole prices the average shown lies between the cheapest and the
    dearest dish of the course. C40: for a mean of at least \<open>10 ^ 21\<close> the digit search
    of \<open>Number::toString\<close> ends at a digit count that round-trips, within its fuel.
  \<^item> \<open>FilterScreen\<close>: \<open>filter_state\<close>, \<open>filteredItems\<close>, \<open>filter_pick\<close>,
    \<open>filter_render\<close> (prompt, message or list). Claims C16, C18, C19.
  \<^item> \<open>App\<close>: the app as the inductive step relation \<open>app_step\<close> on \<open>app_state\<close> (the
    list, the chef screen's and the filter screen's local state, the current route):
    the home buttons (\<open>home_press\<close>), the back button (which unmounts a screen and so
    resets its state), and the events of the two screens; \<open>reachable\<close> states from
    \<open>app_init\<close>. Claims C23 (invariant by rule induction), C24 (adding is always
    possible), C34 (removing is always possible), C25 (what the chef adds, the other
    screens show), C35 (a price typed with two decimals is shown back as the average of
    a course that had no dish), C38 (every rendered list has distinct React keys), C17
    (each step leaves the list alone or, on the chef screen only, appends one dish with
    a fresh id or removes by one id: at most one whole mutation per user action).
  \<^item> \<open>Screens\<close>: the text content of each rendered screen as \<open>screen_view\<close>
    (\<open>home_screen_render\<close>, \<open>filter_screen_render\<close>, \<open>chef_screen_render\<close>: the
    headings, button labels, input placeholders and values, the course pickers built by
    \<open>course_picker\<close>, and the lists), and \<open>app_render\<close>, the screen of the current
    route. Claims C8 (from the home screen each button opens its screen fresh) and C33
    (the chef screen's Remove list and the home screen show the same dishes).
  \<^item> \<open>Styles\<close>: the three \<open>StyleSheet.create\<close> objects as association lists
    (\<open>home_styles\<close>, \<open>filter_styles\<close>, \<open>chef_styles\<close>), the \<open>styles.x\<close> names each
    screen's JSX reads, the inline colours, and a check of colour strings
    (\<open>css_colour\<close>: hex with 3, 4, 6 or 8 digits, or \<open>rgba\<close> with channels up to 255
    and alpha in 0 to 1). Claim C4: each sheet fits its JSX and every colour is
    well-formed.
  \<^item> \<open>Batching\<close>: several chef events handled against one render, as React would if
    no render came between them: \<open>chef_updates\<close> are the \<open>setState\<close> calls of a
    handler, with values taken from the render, and \<open>chef_batch\<close> applies them in
    order. Claims C30 (a batch of one is \<open>chef_handle\<close>), C15 (two Remove presses in
    one batch remove only the second dish), C22 (a double tap on Add Dish adds the dish
    once).
  \<^item> \<open>MenuStore\<close>: the abstract store of the specification (section 4.1), prices as
    rationals, with \<open>spec_add\<close>, \<open>spec_remove\<close>, \<open>spec_listByCourse\<close>,
    \<open>spec_sectionsByCourse\<close> and \<open>spec_averagePrice\<close> (half up).
  \<^item> \<open>Refinement\<close>: the correspondence \<open>store_rel\<close> of screen lists and abstract stores;
    the readers and \<open>removeItem\<close> implement the specification (C26), and so does
    \<open>addItem\<close> for a finite non-negative price (C27), and \<open>averagePrice\<close> for whole
    prices when the count of the course is no multiple of 40 (C32).
  \<^item> This theory: where the code departs from the specification, stated over all
    inputs: C28 (the exact set of price texts the code accepts and the specification
    refuses), C29 (\<open>parseFloat\<close> reads a numeric prefix, through
    \<open>parseFloat_digits_prefix\<close>), C36 (every mean of at least \<open>10 ^ 21\<close> is shown in
    exponent notation).

  \<^bold>\<open>Findings.\<close> A price that parses to no number (\<open>abc\<close>, stored as \<open>NaN\<close>, after
  which the course's average shows \<open>NaN\<close>) or a negative one is accepted, where the
  specification rejects it (C28, C14), as is a price like \<open>12abc\<close>, stored as 12
  (C29); the average rounds the binary value, not the decimal mean (C10), so a price
  typed as \<open>1.005\<close>, stored below it, averages to \<open>1.00\<close>, not the half-up
  \<open>1.01\<close>; for whole prices the average is the half-up mean only when the count of
  the course is no multiple of 40 (C32: 39 mains at 25 and one at 26 average 25.025,
  shown \<open>25.02\<close>); an average of at least \<open>10 ^ 21\<close> is shown in exponent notation,
  not with two decimals (C36); the course picker of the chef screen has no \<open>value\<close>
  prop, so after an addition it still shows a course the form no longer holds, and
  every next Add Dish is refused (C21); the
  handlers set the list computed from the rendered one, so the code relies on a render
  between two presses, which section 5 of the specification assumes: two Remove presses
  handled against one render remove only the second dish (C15).

  \<^bold>\<open>Bounds.\<close> No loop of the program can run forever: \<open>filter\<close>, \<open>map\<close> and
  \<open>reduce\<close> are structural recursions, and \<open>app_step\<close> is one event. The one search of
  the model, \<open>shortest_digits\<close> in \<open>Number::toString\<close>, is given as much fuel as the
  number has decimal digits, which is enough since the digits of the number itself always
  round back to it (\<open>shortest_digits_found\<close>, through the uniqueness of canonical
  doubles, \<open>double_unique\<close>), and any larger fuel gives the same result
  (\<open>shortest_digits_fuel_indep\<close>); C40 applies this to the average. The exponent
  range of doubles (-1074 to 971 for the unit in the last place) and the 53-bit
  mantissa are written out in \<open>round_double\<close>.

  \<^bold>\<open>Not modelled.\<close> The layout React Native computes from the styles, the logo
  image asset and scrolling (outside the program: the text each screen renders is
  modelled in \<open>Screens\<close>, its style data in \<open>Styles\<close>); the navigation library
  beyond push and pop; the \<open>MenuItem\<close> component (not among the sources); the
  randomness of \<open>uuidv4()\<close> (the model takes the returned id as a parameter and
  states freshness as a premise); negative zero, which
  no code path of the app can distinguish; UTF-16 code units above 255.
\<close>


section \<open>Where the code departs from the specification\<close>

text \<open>
  C28: on a filled form (name, description and price text non-empty, a course picked)
  the code and the specification's \<open>add\<close> disagree exactly when the price text reads as
  no number or as a negative one: \<open>addItem\<close> checks only that the text is non-empty and
  stores whatever \<open>parseFloat\<close> gives (\<open>NaN\<close> for \<open>abc\<close>, -5 for \<open>-5\<close>), while the
  specification (sections 3, 4.1 and 7, P6) refuses such a price with
  \<open>ValidationError\<close>.
\<close>

theorem addItem_accepts_invalid_price:
  assumes "chef_name st \<noteq> []" and "chef_desc st \<noteq> []" and "chef_price st \<noteq> []"
    and "chef_course st = Some c"
  shows "(\<exists>r. addItem u items st = Inr r
            \<and> spec_add u (chef_name st) (chef_desc st) (js_value (parseFloat (chef_price st))) (chef_course st) store
                = Inl ValidationError)
    \<longleftrightarrow> js_value (parseFloat (chef_price st)) = None \<or> (\<exists>q. js_value (parseFloat (chef_price st)) = Some q \<and> q < 0)"
  using assms by (auto simp: addItem_def spec_add_def js_truthy_str_def Let_def split: option.splits)

theorem addItem_accepts_invalid_price_witness:
  "''n'' \<noteq> [] \<and> ''d'' \<noteq> [] \<and> ''abc'' \<noteq> [] \<and> Some Mains = Some Mains
   \<and> js_value (parseFloat ''abc'') = None
   \<and> (\<exists>r. addItem ''u'' [] \<lparr>chef_name = ''n'', chef_desc = ''d'', chef_price = ''abc'', chef_course = Some Mains\<rparr> = Inr r
        \<and> spec_add ''u'' ''n'' ''d'' (js_value (parseFloat ''abc'')) (Some Mains) [] = Inl ValidationError)"
proof -
  have v: "js_value (parseFloat ''abc'') = None" by (simp add: js_eval)
  show ?thesis
    using addItem_accepts_invalid_price [of "\<lparr>chef_name = ''n'', chef_desc = ''d'', chef_price = ''abc'', chef_course = Some Mains\<rparr>"
        Mains "''u''" "[]" "[]"] v
    by simp
qed

text \<open>
  C29: a price text made of digits followed by anything that cannot continue a number
  (a letter other than \<open>e\<close>, a space, a currency sign) is accepted and stored as the
  digits alone: \<open>12abc\<close> adds the dish at 12, as \<open>12\<close> does, although the text is no
  number and the specification refuses it (section 7).
\<close>

theorem addItem_reads_price_prefix:
  assumes "ds \<noteq> []" and "list_all is_dec_digit ds" and "ends_number r"
  shows "addItem u items (st\<lparr>chef_price := ds @ r\<rparr>) = addItem u items (st\<lparr>chef_price := ds\<rparr>)"
  using assms parseFloat_digits_prefix [OF assms] by (simp add: addItem_def js_truthy_str_def Let_def)

theorem addItem_reads_price_prefix_witness:
  "''12'' \<noteq> [] \<and> list_all is_dec_digit ''12'' \<and> ends_number ''abc''
   \<and> addItem ''u'' [] (chef_init\<lparr>chef_price := ''12'' @ ''abc''\<rparr>) = addItem ''u'' [] (chef_init\<lparr>chef_price := ''12''\<rparr>)"
proof -
  have h: "''12'' \<noteq> []" "list_all is_dec_digit ''12''" "ends_number ''abc''"
    by (simp_all add: is_dec_digit_def ends_number_def)
  show ?thesis using addItem_reads_price_prefix [OF h, of "''u''" "[]" chef_init] h by simp
qed

text \<open>
  C36: the specification (section 4.1) promises a decimal string with two fraction
  digits. For every course whose computed mean is at least \<open>10 ^ 21\<close>, \<open>toFixed\<close> hands
  over to \<open>Number::toString\<close>, and the average shown is in exponent notation: it contains
  \<open>e\<close> and is no two-decimal number.
\<close>

theorem averagePrice_exponent_notation:
  assumes "its = filter (\<lambda>i. course_name (course i) = c) items" and "its \<noteq> []"
    and "js_div (price_total its) (js_of_int (int (length its))) = Num m e"
    and "at_least_1e21 (nat \<bar>m\<bar>) e"
  shows "CHR ''e'' \<in> set (averagePrice items c) \<and> \<not> is_fixed 2 (averagePrice items c)"
proof -
  have "CHR ''e'' \<in> set (averagePrice items c)"
    using averagePrice_large_form [OF assms] by auto
  moreover have "\<not> is_dec_digit (CHR ''e'')" by (simp add: is_dec_digit_def)
  ultimately show ?thesis using is_fixed_chars by fastforce
qed

theorem averagePrice_exponent_notation_witness:
  "[item_w] = filter (\<lambda>i. course_name (course i) = ''Mains'') [item_w] \<and> [item_w] \<noteq> []
   \<and> js_div (price_total [item_w]) (js_of_int (int (length [item_w]))) = Num 7629394531250000 17
   \<and> at_least_1e21 (nat \<bar>7629394531250000\<bar>) 17
   \<and> CHR ''e'' \<in> set (averagePrice [item_w] ''Mains'') \<and> \<not> is_fixed 2 (averagePrice [item_w] ''Mains'')"
proof -
  have f: "[item_w] = filter (\<lambda>i. course_name (course i) = ''Mains'') [item_w]" by (simp add: item_w_def)
  have n: "[item_w] \<noteq> []" by simp
  have d: "js_div (price_total [item_w]) (js_of_int (int (length [item_w]))) = Num 7629394531250000 17"
    by (simp add: item_w_def price_total_def js_eval)
  have b: "at_least_1e21 (nat \<bar>7629394531250000\<bar>) 17" by (simp add: at_least_1e21_def)
  show ?thesis using averagePrice_exponent_notation [OF f n d b] f n d b by blast
qed

end
